theory Spec2Isabelle
  imports Main "HOL-Library.Word"
begin

unbundle bit_operations_syntax

section \<open>Data model of the memory editor\<close>

text \<open>
  \<open>size_t\<close> is a 64-bit unsigned integer (the source prints it with \<open>%ld\<close>/\<open>%lX\<close>):
  comparisons are unsigned, \<open>+\<close> and \<open>-\<close> wrap. \<open>Color\<close> is the union over an
  \<open>ImU32\<close>; only its \<open>id\<close> view is needed here. Indices into vectors are natural
  numbers.
\<close>

type_synonym size_t = "64 word"
type_synonym ImU8 = "8 word"
type_synonym Color = "32 word"

text \<open>
  \<open>HighlightRange\<close> and \<open>NoteRange\<close> share the four fields that the template
  \<open>IsInRange<T>\<close> reads; the note carries a description in addition.
\<close>

record HighlightRange =
  RangeStartAddress :: size_t
  RangeEndAddress :: size_t
  RangeColor :: Color
  isActive :: bool

record NoteRange = HighlightRange +
  Description :: string

datatype RangePosition = NotInRange | Start | Middle | End

section \<open>IsInRange\<close>

subsection \<open>The binary search of the helper library\<close>

text \<open>
  The comparator handed to \<open>binary_find\<close> answers \<open>s32(-1)\<close>, \<open>s32(1)\<close>, \<open>s32(0)\<close> or
  \<open>cancel_search<s32>()\<close>.
\<close>

datatype search_order = go_left | go_right | found | cancel_search

text \<open>
  Modelled from the spec: \<open>lt::algorithms::binary_find\<close> lives in
  \<open>include/algorithms/binary_search.hpp\<close>, which is not part of the sources at hand. The
  specification describes it as a binary search over a sequence taken to be sorted, driven
  by a comparator that says "go left", "go right" or "found", and that may emit a
  search-cancellation signal which ends the search as not found. The model halves the
  index interval \<open>[lo, hi)\<close>, probes its middle element and returns the pair
  \<open>(found, idx)\<close> that the caller destructures; \<open>idx\<close> carries no information when
  \<open>found\<close> is false (the caller does not read it then).
\<close>

function binary_find :: "('a \<Rightarrow> search_order) \<Rightarrow> 'a list \<Rightarrow> nat \<Rightarrow> nat \<Rightarrow> bool \<times> nat" where
  "binary_find cmp xs lo hi =
     (if lo < hi then
        (case cmp (xs ! (lo + (hi - lo) div 2)) of
           found \<Rightarrow> (True, lo + (hi - lo) div 2)
         | cancel_search \<Rightarrow> (False, length xs)
         | go_left \<Rightarrow> binary_find cmp xs lo (lo + (hi - lo) div 2)
         | go_right \<Rightarrow> binary_find cmp xs (Suc (lo + (hi - lo) div 2)) hi)
      else (False, length xs))"
  by pat_completeness auto
termination
  by (relation "measure (\<lambda>(cmp, xs, lo, hi). hi - lo)") auto

declare binary_find.simps [simp del]

subsection \<open>The two lookup paths\<close>

text \<open>
  Both paths end with the same three tests on the matched range: \<open>Start\<close> is tested
  first, then \<open>End\<close> against \<open>RangeEndAddress - 1\<close> (unsigned, wrapping), else
  \<open>Middle\<close>.
\<close>

definition position_in_range :: "'a HighlightRange_scheme \<Rightarrow> size_t \<Rightarrow> RangePosition" where
  "position_in_range r addr =
     (if addr = RangeStartAddress r then Start
      else if addr = RangeEndAddress r - 1 then End
      else Middle)"

text \<open>
  A call returns the position together with the final contents of the reference parameter
  \<open>color\<close> and of the cell behind \<open>out_range_idx\<close> (\<open>None\<close> stands for a null
  pointer, which is never written through).
\<close>

type_synonym IsInRange_result = "RangePosition \<times> Color \<times> nat option"

text \<open>
  The scan of the below-100 path: \<open>idx\<close> counts up from 0 over the elements in storage
  order. The first range that contains the address decides the call: its colour is stored
  before its activity is looked at.
\<close>

fun IsInRange_loop ::
  "'a HighlightRange_scheme list \<Rightarrow> nat \<Rightarrow> size_t \<Rightarrow> Color \<Rightarrow> nat option \<Rightarrow> IsInRange_result" where
  "IsInRange_loop [] idx addr color out_range_idx = (NotInRange, color, out_range_idx)"
| "IsInRange_loop (highlight_range # rest) idx addr color out_range_idx =
     (if RangeStartAddress highlight_range \<le> addr \<and> addr < RangeEndAddress highlight_range then
        (if \<not> isActive highlight_range then (NotInRange, RangeColor highlight_range, out_range_idx)
         else (position_in_range highlight_range addr, RangeColor highlight_range,
               map_option (\<lambda>_. idx) out_range_idx))
      else IsInRange_loop rest (Suc idx) addr color out_range_idx)"

definition IsInRange_linear ::
  "'a HighlightRange_scheme list \<Rightarrow> size_t \<Rightarrow> Color \<Rightarrow> nat option \<Rightarrow> IsInRange_result" where
  "IsInRange_linear ranges addr color out_range_idx = IsInRange_loop ranges 0 addr color out_range_idx"

text \<open>The comparator lambda of the at-or-above-100 path (its second argument is unused).\<close>

definition IsInRange_compare :: "size_t \<Rightarrow> 'a HighlightRange_scheme \<Rightarrow> search_order" where
  "IsInRange_compare addr highlight_range =
     (if addr < RangeStartAddress highlight_range then go_left
      else if addr \<ge> RangeEndAddress highlight_range then go_right
      else if isActive highlight_range then found
      else cancel_search)"

text \<open>
  The comparator stores the colour only when it answers 0, which ends the search at that
  element, so the colour left behind is the one of the element found.
\<close>

definition IsInRange_binary ::
  "'a HighlightRange_scheme list \<Rightarrow> size_t \<Rightarrow> Color \<Rightarrow> nat option \<Rightarrow> IsInRange_result" where
  "IsInRange_binary ranges addr color out_range_idx =
     (case binary_find (IsInRange_compare addr) ranges 0 (length ranges) of
        (False, idx) \<Rightarrow> (NotInRange, color, out_range_idx)
      | (True, idx) \<Rightarrow>
          (position_in_range (ranges ! idx) addr, RangeColor (ranges ! idx),
           map_option (\<lambda>_. idx) out_range_idx))"

definition IsInRange ::
  "'a HighlightRange_scheme list \<Rightarrow> size_t \<Rightarrow> Color \<Rightarrow> nat option \<Rightarrow> IsInRange_result" where
  "IsInRange ranges addr color out_range_idx =
     (if length ranges = 0 then (NotInRange, color, out_range_idx)
      else if addr < RangeStartAddress (hd ranges) \<or> addr > RangeEndAddress (last ranges)
        then (NotInRange, color, out_range_idx)
      else if length ranges < 100 then IsInRange_linear ranges addr color out_range_idx
      else IsInRange_binary ranges addr color out_range_idx)"

subsection \<open>Vocabulary for statements about range sequences\<close>

text \<open>
  \<open>in_range\<close> is the containment test that both paths apply to a single range.
  Two ranges overlap when they share an address, which for half-open spans means
  that the larger start lies below the smaller end. A sequence is sorted by start when
  starts never decrease along it, and non-overlapping when no two of its ranges overlap.
  \<open>ordered_ranges\<close> is the stronger chaining condition: every range ends at or before
  the start of every later one.
\<close>

definition in_range :: "'a HighlightRange_scheme \<Rightarrow> size_t \<Rightarrow> bool" where
  "in_range r addr \<longleftrightarrow> RangeStartAddress r \<le> addr \<and> addr < RangeEndAddress r"

definition ranges_overlap :: "'a HighlightRange_scheme \<Rightarrow> 'b HighlightRange_scheme \<Rightarrow> bool" where
  "ranges_overlap a b \<longleftrightarrow>
     max (RangeStartAddress a) (RangeStartAddress b) < min (RangeEndAddress a) (RangeEndAddress b)"

definition sorted_by_start :: "'a HighlightRange_scheme list \<Rightarrow> bool" where
  "sorted_by_start rs = sorted_wrt (\<lambda>a b. RangeStartAddress a \<le> RangeStartAddress b) rs"

definition non_overlapping :: "'a HighlightRange_scheme list \<Rightarrow> bool" where
  "non_overlapping rs = sorted_wrt (\<lambda>a b. \<not> ranges_overlap a b) rs"

definition ordered_ranges :: "'a HighlightRange_scheme list \<Rightarrow> bool" where
  "ordered_ranges rs =
     sorted_wrt (\<lambda>a b. RangeStartAddress a \<le> RangeStartAddress b \<and> RangeEndAddress a \<le> RangeStartAddress b) rs"

subsection \<open>Concrete range sequences\<close>

text \<open>Two well-formed ranges, the second inactive.\<close>

definition two_ranges :: "HighlightRange list" where
  "two_ranges =
     [\<lparr>RangeStartAddress = 10, RangeEndAddress = 15, RangeColor = 1, isActive = True\<rparr>,
      \<lparr>RangeStartAddress = 20, RangeEndAddress = 30, RangeColor = 2, isActive = False\<rparr>]"

text \<open>
  A single one-byte range, the single range \<open>[10, 15)\<close>, and a sequence in which an
  inactive range comes before an active one that contains the same addresses.
\<close>

definition one_byte_range :: "HighlightRange list" where
  "one_byte_range = [\<lparr>RangeStartAddress = 10, RangeEndAddress = 11, RangeColor = 1, isActive = True\<rparr>]"

definition range_10_15 :: "HighlightRange list" where
  "range_10_15 = [\<lparr>RangeStartAddress = 10, RangeEndAddress = 15, RangeColor = 1, isActive = True\<rparr>]"

definition shadowed_range :: "HighlightRange list" where
  "shadowed_range =
     [\<lparr>RangeStartAddress = 10, RangeEndAddress = 15, RangeColor = 1, isActive = True\<rparr>,
      \<lparr>RangeStartAddress = 20, RangeEndAddress = 30, RangeColor = 2, isActive = False\<rparr>,
      \<lparr>RangeStartAddress = 0, RangeEndAddress = 100, RangeColor = 3, isActive = True\<rparr>]"

section \<open>Editor state\<close>

text \<open>
  The eleven data types of the enumeration \<open>DataType_\<close> (the enumerator \<open>DataType_COUNT\<close> is the
  count, not a type), their position in the enumeration and their size in bytes as
  tabulated by \<open>DataTypeGetSize\<close>; the three text formats.
\<close>

datatype DataType =
    DataType_S8 | DataType_U8 | DataType_S16 | DataType_U16 | DataType_S32 | DataType_U32
  | DataType_S64 | DataType_U64 | DataType_HalfFloat | DataType_Float | DataType_Double

datatype DataFormat = DataFormat_Bin | DataFormat_Dec | DataFormat_Hex

fun DataType_index :: "DataType \<Rightarrow> nat" where
  "DataType_index DataType_S8 = 0"
| "DataType_index DataType_U8 = 1"
| "DataType_index DataType_S16 = 2"
| "DataType_index DataType_U16 = 3"
| "DataType_index DataType_S32 = 4"
| "DataType_index DataType_U32 = 5"
| "DataType_index DataType_S64 = 6"
| "DataType_index DataType_U64 = 7"
| "DataType_index DataType_HalfFloat = 8"
| "DataType_index DataType_Float = 9"
| "DataType_index DataType_Double = 10"

fun DataTypeGetSize :: "DataType \<Rightarrow> nat" where
  "DataTypeGetSize DataType_S8 = 1"
| "DataTypeGetSize DataType_U8 = 1"
| "DataTypeGetSize DataType_S16 = 2"
| "DataTypeGetSize DataType_U16 = 2"
| "DataTypeGetSize DataType_S32 = 4"
| "DataTypeGetSize DataType_U32 = 4"
| "DataTypeGetSize DataType_S64 = 8"
| "DataTypeGetSize DataType_U64 = 8"
| "DataTypeGetSize DataType_HalfFloat = 2"
| "DataTypeGetSize DataType_Float = 4"
| "DataTypeGetSize DataType_Double = 8"

text \<open>
  The members of \<open>MemoryEditor\<close> that the modelled functions read or write. The C
  \<open>int\<close> settings are integers (the code never drives them to overflow); the optional
  handlers are \<open>None\<close> when the function pointer is null.
\<close>

record MemoryEditor =
  Cols :: int
  OptMidColsCount :: int
  ReadFn :: "(ImU8 list \<Rightarrow> size_t \<Rightarrow> ImU8) option"
  HighlightFn :: "(ImU8 list \<Rightarrow> size_t \<Rightarrow> bool) option"
  DataPreviewAddr :: size_t
  ValueConverterInputBuf :: string
  HighlightMin :: size_t
  HighlightMax :: size_t
  ValueToConvert :: size_t
  PreviewEndianess :: int
  PreviewDataType :: DataType
  ConvertValueType :: DataType
  ConvertValueFormat :: DataFormat
  Ranges :: "HighlightRange list"
  Notes :: "NoteRange list"

text \<open>\<open>std::numeric_limits<size_t>::max()\<close>, as an address and as an index.\<close>

definition size_t_max :: size_t where
  "size_t_max = - 1"


text \<open>The conversion of an \<open>int\<close> to \<open>size_t\<close> (sign extension, then reinterpretation).\<close>

definition size_t_of_int :: "int \<Rightarrow> size_t" where
  "size_t_of_int i = word_of_int i"

section \<open>Width of the highlight fill\<close>



text \<open>
  The mid-column test guards the remainder with \<open>OptMidColsCount > 0\<close> and
  \<open>colIdx > 0\<close>, so the remainder is only ever taken of positive operands, where C and
  HOL agree.
\<close>

definition mid_cols_boundary :: "MemoryEditor \<Rightarrow> int \<Rightarrow> bool" where
  "mid_cols_boundary me colIdx \<longleftrightarrow>
     OptMidColsCount me > 0 \<and> colIdx > 0 \<and> colIdx + 1 < Cols me
     \<and> (colIdx + 1) mod OptMidColsCount me = 0"




subsection \<open>Vocabulary for statements about the fill\<close>



section \<open>Outline of a note\<close>

text \<open>
  \<open>hasRangeBelow\<close>. The scan over the notes stored after the matched one keeps the
  bounds and the activity of the last note that starts at or before the first address of
  the next line and ends beyond the cell below; it stops at the first note that starts at
  or before that address without reaching the cell below. \<open>first\<close> says that
  \<open>noteIdx\<close> is still \<open>noteStartIdx\<close>.
\<close>

fun hasRangeBelow_loop :: "NoteRange list \<Rightarrow> bool \<Rightarrow> size_t \<Rightarrow> size_t \<Rightarrow> NoteRange \<Rightarrow> NoteRange" where
  "hasRangeBelow_loop [] first nextLineFirstAddr cellAddrBellow rangesInNextLine = rangesInNextLine"
| "hasRangeBelow_loop (note # rest) first nextLineFirstAddr cellAddrBellow rangesInNextLine =
     (if nextLineFirstAddr \<ge> RangeStartAddress note then
        (if cellAddrBellow < RangeEndAddress note then
           hasRangeBelow_loop rest False nextLineFirstAddr cellAddrBellow
             ((if first then rangesInNextLine\<lparr>RangeStartAddress := RangeStartAddress note\<rparr>
               else rangesInNextLine)
              \<lparr>RangeEndAddress := RangeEndAddress note, isActive := isActive note\<rparr>)
         else rangesInNextLine)
      else hasRangeBelow_loop rest False nextLineFirstAddr cellAddrBellow rangesInNextLine)"

definition hasRangeBelow :: "MemoryEditor \<Rightarrow> size_t \<Rightarrow> nat \<Rightarrow> size_t \<Rightarrow> size_t \<Rightarrow> size_t \<Rightarrow> bool" where
  "hasRangeBelow me lastLineAddr note_idx lineIdx colIdx line_max_idx =
     (let nextLineFirstAddr = lastLineAddr + 1;
          cellAddrBellow = nextLineFirstAddr + colIdx;
          empty = \<lparr>RangeStartAddress = 0, RangeEndAddress = 0, RangeColor = 0, isActive = False,
                   Description = []\<rparr>;
          noteDoesntEndInSameLine =
            (note_idx < length (Notes me) \<and> nextLineFirstAddr < RangeEndAddress (Notes me ! note_idx));
          cellBelowInSameNote =
            (note_idx < length (Notes me) \<and> cellAddrBellow < RangeEndAddress (Notes me ! note_idx));
          rangesInNextLine =
            (if note_idx < length (Notes me)
             then hasRangeBelow_loop (drop (note_idx + 1) (Notes me)) True nextLineFirstAddr
                    cellAddrBellow empty
             else empty);
          cellAddrBellowBellongToRangesInNextLine = (cellAddrBellow < RangeEndAddress rangesInNextLine);
          cellAddrBellowRangeIsActive = isActive rangesInNextLine;
          hasAnotherNoteBelow = (cellAddrBellowBellongToRangesInNextLine \<and> cellAddrBellowRangeIsActive);
          hasSameNoteBelow = (noteDoesntEndInSameLine \<and> cellBelowInSameNote);
          hasNoteBelow = (hasSameNoteBelow \<or> hasAnotherNoteBelow);
          isNotLastLine = (lineIdx < line_max_idx)
      in isNotLastLine \<and> hasNoteBelow)"

text \<open>
  \<open>drawNoteRect\<close> issues up to four \<open>AddLine\<close> calls. The model returns which edges
  are drawn, in the order of the calls; the pixel coordinates (floating point) are left
  out. The \<open>int\<close> arguments are converted to \<open>size_t\<close> where the source passes them to
  \<open>hasRangeBelow\<close> or adds them to an address.
\<close>

datatype NoteEdge = HorizontalTop | HorizontalBottom | VerticalLeft | VerticalRight

definition drawNoteRect ::
  "MemoryEditor \<Rightarrow> nat \<Rightarrow> size_t \<Rightarrow> RangePosition \<Rightarrow> int \<Rightarrow> int \<Rightarrow> int \<Rightarrow> NoteEdge list" where
  "drawNoteRect me note_idx addr range_position colIdx lineIdx line_max_idx =
     (let is_space_in_between = mid_cols_boundary me colIdx;
          firstLineAddr = addr - size_t_of_int colIdx;
          lastLineAddr = addr + size_t_of_int (Cols me - colIdx - 1);
          notRangeBelow = (\<not> hasRangeBelow me lastLineAddr note_idx (size_t_of_int lineIdx)
                               (size_t_of_int colIdx) (size_t_of_int line_max_idx))
      in [HorizontalTop]
         @ (if is_space_in_between \<or> notRangeBelow then [HorizontalBottom] else [])
         @ (if range_position = Start \<or> addr = firstLineAddr then [VerticalLeft] else [])
         @ (if range_position = End \<or> addr = lastLineAddr then [VerticalRight] else []))"

section \<open>Concrete editors\<close>

text \<open>
  The state the constructor \<open>MemoryEditor(ranges, ranges_size)\<close> sets up, for the members
  modelled: 14 columns, a mid-column gap every 8 columns, no handlers, no preview address,
  the text "0" in the converter's input, no user highlight, little-endian preview of \<open>Int32\<close>, a converter on \<open>Uint32\<close> in
  hexadecimal, and no notes.
\<close>

definition MemoryEditor_new :: "HighlightRange list \<Rightarrow> MemoryEditor" where
  "MemoryEditor_new ranges =
     \<lparr>Cols = 14, OptMidColsCount = 8, ReadFn = None, HighlightFn = None,
      DataPreviewAddr = size_t_max, ValueConverterInputBuf = ''0'',
      HighlightMin = size_t_max, HighlightMax = size_t_max,
      ValueToConvert = 0, PreviewEndianess = 0, PreviewDataType = DataType_S32,
      ConvertValueType = DataType_U32, ConvertValueFormat = DataFormat_Hex,
      Ranges = ranges, Notes = []\<rparr>"

text \<open>
  An editor with one active note over \<open>[0, 28)\<close>, two display lines of 14 columns; one
  with an active highlight range \<open>[0, 100)\<close>, to be shown over a buffer of 10 bytes; and
  one whose highlight handler marks every address.
\<close>

definition two_line_note_editor :: MemoryEditor where
  "two_line_note_editor =
     (MemoryEditor_new [])\<lparr>Notes :=
        [\<lparr>RangeStartAddress = 0, RangeEndAddress = 28, RangeColor = 1, isActive = True,
          Description = ''note''\<rparr>]\<rparr>"




section \<open>Typed preview of bytes\<close>

subsection \<open>Objects in memory\<close>

text \<open>
  The byte order of the machine the editor runs on is a parameter of the model. An
  unsigned integer object of \<open>n\<close> bytes is stored least significant byte first on a
  little-endian host and most significant byte first on a big-endian one;
  \<open>object_value\<close> reads an object back from its bytes.
\<close>

datatype ByteOrder = LittleEndian | BigEndian

definition le_bytes :: "nat \<Rightarrow> 'a::len word \<Rightarrow> ImU8 list" where
  "le_bytes n v = map (\<lambda>i. ucast (drop_bit (8 * i) v)) [0..<n]"

fun of_le_bytes :: "ImU8 list \<Rightarrow> 'a::len word" where
  "of_le_bytes [] = 0"
| "of_le_bytes (b # bs) = ucast b OR push_bit 8 (of_le_bytes bs)"

definition object_bytes :: "ByteOrder \<Rightarrow> nat \<Rightarrow> 'a::len word \<Rightarrow> ImU8 list" where
  "object_bytes host n v =
     (case host of LittleEndian \<Rightarrow> le_bytes n v | BigEndian \<Rightarrow> rev (le_bytes n v))"

definition object_value :: "ByteOrder \<Rightarrow> ImU8 list \<Rightarrow> 'a::len word" where
  "object_value host bs =
     of_le_bytes (case host of LittleEndian \<Rightarrow> bs | BigEndian \<Rightarrow> rev bs)"

subsection \<open>EndianessCopy\<close>

text \<open>
  \<open>IsBigEndian\<close> stores the 16-bit value 1 and answers whether its first byte is
  non-zero.
\<close>

definition IsBigEndian :: "ByteOrder \<Rightarrow> bool" where
  "IsBigEndian host \<longleftrightarrow> hd (object_bytes host 2 (1 :: 16 word)) \<noteq> 0"

text \<open>
  Both copy routines write the first \<open>s\<close> bytes of \<open>dst\<close> and leave the rest of it
  alone: \<open>memcpy\<close> copies in order, the loop copies \<open>src[s - 1 - i]\<close> to \<open>dst[i]\<close>.
\<close>

definition memcpy_bytes :: "ImU8 list \<Rightarrow> ImU8 list \<Rightarrow> nat \<Rightarrow> ImU8 list" where
  "memcpy_bytes dst src s = take s src @ drop s dst"

definition reversed_copy :: "ImU8 list \<Rightarrow> ImU8 list \<Rightarrow> nat \<Rightarrow> ImU8 list" where
  "reversed_copy dst src s = map (\<lambda>i. src ! (s - 1 - i)) [0..<s] @ drop s dst"

definition EndianessCopyBigEndian :: "ImU8 list \<Rightarrow> ImU8 list \<Rightarrow> nat \<Rightarrow> int \<Rightarrow> ImU8 list" where
  "EndianessCopyBigEndian dst src s is_little_endian =
     (if is_little_endian \<noteq> 0 then reversed_copy dst src s else memcpy_bytes dst src s)"

definition EndianessCopyLittleEndian :: "ImU8 list \<Rightarrow> ImU8 list \<Rightarrow> nat \<Rightarrow> int \<Rightarrow> ImU8 list" where
  "EndianessCopyLittleEndian dst src s is_little_endian =
     (if is_little_endian \<noteq> 0 then memcpy_bytes dst src s else reversed_copy dst src s)"

text \<open>
  \<open>EndianessCopy\<close> picks the routine once (the host does not change) and passes
  \<open>PreviewEndianess\<close> as the routine's flag. The result is the new contents of \<open>dst\<close>.
\<close>

definition EndianessCopy ::
  "MemoryEditor \<Rightarrow> ByteOrder \<Rightarrow> ImU8 list \<Rightarrow> ImU8 list \<Rightarrow> nat \<Rightarrow> ImU8 list" where
  "EndianessCopy me host dst src size' =
     (if IsBigEndian host then EndianessCopyBigEndian dst src size' (PreviewEndianess me)
      else EndianessCopyLittleEndian dst src size' (PreviewEndianess me))"

subsection \<open>FormatBinary\<close>

text \<open>
  For each of the \<open>width / 8\<close> bytes, from the one with the highest index down to index
  0, eight characters for the bits 7 down to 0, then one space.
\<close>

definition FormatBinary :: "ImU8 list \<Rightarrow> int \<Rightarrow> string" where
  "FormatBinary buf width =
     (let n = nat (width div 8)
      in concat (map (\<lambda>j. map (\<lambda>i. if buf ! j AND push_bit (7 - i) 1 \<noteq> 0 then CHR ''1''
                                      else CHR ''0'') [0..<8] @ '' '')
                     (rev [0..<n])))"

subsection \<open>Conversions of the C library: integers\<close>

text \<open>
  \<open>snprintf\<close> and \<open>sscanf\<close> belong to the C library. Their integer conversions are
  modelled after the C standard (7.21.6.1, 7.21.6.2 and \<open>strtol\<close>/\<open>strtoul\<close> in 7.22.1.4):
  \<open>digits b n\<close> is the numeral of \<open>n\<close> in base \<open>b\<close> with lower-case letters,
  \<open>zero_pad w\<close> fills up to the minimum field width of a \<open>%0w\<close> conversion, and
  \<open>snprintf_truncate\<close> cuts the output to the buffer size, one byte being kept for the
  terminator.
\<close>

definition digit_char :: "nat \<Rightarrow> char" where
  "digit_char d = ''0123456789abcdef'' ! d"

function digits :: "nat \<Rightarrow> nat \<Rightarrow> string" where
  "digits b n = (if b < 2 \<or> n < b then [digit_char n] else digits b (n div b) @ [digit_char (n mod b)])"
  by pat_completeness auto
termination
  by (relation "measure snd") auto

declare digits.simps [simp del]

definition zero_pad :: "nat \<Rightarrow> string \<Rightarrow> string" where
  "zero_pad w s = replicate (w - length s) CHR ''0'' @ s"

definition printf_u :: "nat \<Rightarrow> string" where
  "printf_u n = digits 10 n"

definition printf_d :: "int \<Rightarrow> string" where
  "printf_d i = (if i < 0 then ''-'' @ digits 10 (nat (- i)) else digits 10 (nat i))"

definition printf_0x :: "nat \<Rightarrow> nat \<Rightarrow> string" where
  "printf_0x w n = zero_pad w (digits 16 n)"

definition snprintf_truncate :: "nat \<Rightarrow> string \<Rightarrow> string" where
  "snprintf_truncate out_buf_size s = take (out_buf_size - 1) s"

text \<open>
  An integer conversion of \<open>sscanf\<close> skips white space, takes an optional sign, for
  base 16 an optional \<open>0x\<close> or \<open>0X\<close> that is followed by a hexadecimal digit, and then
  the longest run of digits. Without a digit the conversion fails and nothing is stored
  (\<open>None\<close>). A value too large for the type is clamped as \<open>strtoul\<close> and \<open>strtol\<close>
  clamp it: \<open>strtoul\<close> to the maximal value whatever the sign, \<open>strtol\<close> to the extreme
  value of that sign. A minus sign before a value that fits negates it, for \<open>strtoul\<close>
  modulo \<open>2^64\<close>.
\<close>

definition isspace :: "char \<Rightarrow> bool" where
  "isspace c \<longleftrightarrow> c \<in> set [CHR '' '', CHR 0x09, CHR 0x0A, CHR 0x0B, CHR 0x0C, CHR 0x0D]"

definition digit_value :: "char \<Rightarrow> nat option" where
  "digit_value c =
     (if c \<in> set ''0123456789'' then Some (of_char c - 48)
      else if c \<in> set ''abcdef'' then Some (of_char c - 87)
      else if c \<in> set ''ABCDEF'' then Some (of_char c - 55)
      else None)"

definition is_digit :: "nat \<Rightarrow> char \<Rightarrow> bool" where
  "is_digit b c \<longleftrightarrow> (case digit_value c of None \<Rightarrow> False | Some d \<Rightarrow> d < b)"

definition digits_value :: "nat \<Rightarrow> string \<Rightarrow> nat" where
  "digits_value b s = foldl (\<lambda>acc c. b * acc + the (digit_value c)) 0 s"

text \<open>The sign and what follows it.\<close>

definition scan_sign :: "string \<Rightarrow> bool \<times> string" where
  "scan_sign s =
     (case s of
        c # rest \<Rightarrow> if c = CHR ''-'' then (True, rest)
                    else if c = CHR ''+'' then (False, rest) else (False, s)
      | [] \<Rightarrow> (False, s))"

definition scan_0x :: "string \<Rightarrow> string" where
  "scan_0x s =
     (case s of
        z # x # d # rest \<Rightarrow>
          if z = CHR ''0'' \<and> (x = CHR ''x'' \<or> x = CHR ''X'') \<and> is_digit 16 d then d # rest else s
      | _ \<Rightarrow> s)"

definition strtoul_model :: "nat \<Rightarrow> string \<Rightarrow> size_t option" where
  "strtoul_model b s =
     (let (negative, s1) = scan_sign (dropWhile isspace s);
          s2 = (if b = 16 then scan_0x s1 else s1);
          ds = takeWhile (is_digit b) s2;
          n = digits_value b ds
      in if ds = [] then None
         else Some (if n \<ge> 2 ^ 64 then - 1 else if negative then - of_nat n else of_nat n))"

definition strtol_model :: "nat \<Rightarrow> string \<Rightarrow> size_t option" where
  "strtol_model b s =
     (let (negative, s1) = scan_sign (dropWhile isspace s);
          ds = takeWhile (is_digit b) s1;
          n = digits_value b ds
      in if ds = [] then None
         else Some (if negative then (if n \<ge> 2 ^ 63 then push_bit 63 1 else - of_nat n)
                    else (if n \<ge> 2 ^ 63 then push_bit 63 1 - 1 else of_nat n)))"

text \<open>
  The three integer conversions the converter scans with: \<open>%zX\<close>, \<open>%ld\<close> (the value
  is stored in the \<open>size_t\<close> as its 64-bit pattern) and \<open>%lu\<close>.
\<close>

definition sscanf_zX :: "string \<Rightarrow> size_t option" where
  "sscanf_zX s = strtoul_model 16 s"

definition sscanf_ld :: "string \<Rightarrow> size_t option" where
  "sscanf_ld s = strtol_model 10 s"

definition sscanf_lu :: "string \<Rightarrow> size_t option" where
  "sscanf_lu s = strtoul_model 10 s"

subsection \<open>Conversions of the C library: floating point\<close>

text \<open>
  A \<open>float\<close> passed to \<open>snprintf\<close> is promoted to \<open>double\<close>, and the \<open>_Float16\<close> is
  first converted to \<open>float\<close>; both conversions are exact. \<open>ieee_widen\<close> maps the bit
  pattern of a binary floating-point number with \<open>e1\<close> exponent bits and \<open>m1\<close> fraction
  bits to the pattern of the same number in the wider format with \<open>e2\<close> and \<open>m2\<close>
  bits; a subnormal number becomes a normal one.
\<close>

definition highest_bit :: "nat \<Rightarrow> nat" where
  "highest_bit m = foldl (\<lambda>k i. if bit m i then i else k) 0 [0..<64]"

definition ieee_widen :: "nat \<Rightarrow> nat \<Rightarrow> nat \<Rightarrow> nat \<Rightarrow> nat \<Rightarrow> nat" where
  "ieee_widen e1 m1 e2 m2 w =
     (let sign = w div 2 ^ (e1 + m1) mod 2;
          e = w div 2 ^ m1 mod 2 ^ e1;
          m = w mod 2 ^ m1;
          bias1 = 2 ^ (e1 - 1) - 1;
          bias2 = 2 ^ (e2 - 1) - 1;
          k = highest_bit m;
          widened =
            (if e = 2 ^ e1 - 1 then (2 ^ e2 - 1, m * 2 ^ (m2 - m1))
             else if e = 0 \<and> m = 0 then (0, 0)
             else if e = 0 then (bias2 + k + 1 - bias1 - m1, (m - 2 ^ k) * 2 ^ (m2 - k))
             else (e + bias2 - bias1, m * 2 ^ (m2 - m1)))
      in sign * 2 ^ (e2 + m2) + fst widened * 2 ^ m2 + snd widened)"

definition float_of_half :: "16 word \<Rightarrow> 32 word" where
  "float_of_half h = of_nat (ieee_widen 5 10 8 23 (unat h))"

definition double_of_float :: "32 word \<Rightarrow> 64 word" where
  "double_of_float f = of_nat (ieee_widen 8 23 11 52 (unat f))"

text \<open>
  The \<open>%a\<close> conversion of a \<open>double\<close> (C standard 7.21.6.1), in the form the GNU C
  library prints it: an optional minus sign, then \<open>inf\<close>, \<open>nan\<close>, or \<open>0x\<close>, the leading
  digit (\<open>1\<close> for a normal number, \<open>0\<close> for zero and subnormal ones), the fraction in
  hexadecimal without trailing zeros (and without the point when the fraction is zero),
  \<open>p\<close> and the signed decimal exponent.
\<close>

definition strip_trailing_zeros :: "string \<Rightarrow> string" where
  "strip_trailing_zeros s = rev (dropWhile (\<lambda>c. c = CHR ''0'') (rev s))"

definition printf_a :: "64 word \<Rightarrow> string" where
  "printf_a d =
     (let negative = bit d 63;
          e = unat (take_bit 11 (drop_bit 52 d));
          m = unat (take_bit 52 d);
          fraction = (if m = 0 then [] else ''.'' @ strip_trailing_zeros (zero_pad 13 (digits 16 m)));
          exponent = (if e = 0 then (if m = 0 then 0 else - 1022) else int e - 1023);
          body = (if e = 2047 then (if m = 0 then ''inf'' else ''nan'')
                  else ''0x'' @ (if e = 0 then ''0'' else ''1'') @ fraction @ ''p''
                       @ (if exponent < 0 then ''-'' else ''+'') @ digits 10 (nat \<bar>exponent\<bar>))
      in (if negative then ''-'' else []) @ body)"

text \<open>
  The conversions between decimal text and floating point are taken as they come from the
  C library: \<open>%f\<close> of a \<open>double\<close> in \<open>snprintf\<close>, and \<open>%f\<close> and \<open>%lf\<close> in \<open>sscanf\<close>,
  which yield the bit pattern of the \<open>float\<close> or \<open>double\<close> that was read, or nothing when
  the text does not start with a number.
\<close>

record C_library =
  printf_f :: "64 word \<Rightarrow> string"
  sscanf_f :: "string \<Rightarrow> 32 word option"
  sscanf_lf :: "string \<Rightarrow> 64 word option"

subsection \<open>DrawPreviewData\<close>

text \<open>
  Every case of the switch declares a zero-initialised variable of the type and lets
  \<open>EndianessCopy\<close> overwrite its first \<open>size\<close> bytes; \<open>preview_decode\<close> is the value the
  variable holds afterwards.
\<close>

definition preview_decode ::
  "MemoryEditor \<Rightarrow> ByteOrder \<Rightarrow> nat \<Rightarrow> ImU8 list \<Rightarrow> nat \<Rightarrow> 'a::len word" where
  "preview_decode me host elem_size buf size' =
     object_value host (EndianessCopy me host (replicate elem_size 0) buf size')"

text \<open>
  \<open>mem_data\<close> is \<open>None\<close> for the null pointer the converter passes; the bytes are then
  the first \<open>elem_size\<close> bytes of the object \<open>addr\<close> itself. Otherwise \<open>size\<close> bytes come
  from the buffer, through \<open>ReadFn\<close> when it is set. The result is the text left in
  \<open>out_buf\<close>. A call that would read beyond \<open>mem_data\<close> or write beyond the eight bytes
  of \<open>buf\<close> has no defined behaviour and yields \<open>None\<close>; the callers keep
  \<open>addr < mem_size\<close>. The bytes of \<open>binbuf\<close> that the copy does not write are never read by
  \<open>FormatBinary\<close>.
\<close>

definition DrawPreviewData ::
  "MemoryEditor \<Rightarrow> C_library \<Rightarrow> ByteOrder \<Rightarrow> size_t \<Rightarrow> ImU8 list option \<Rightarrow> size_t \<Rightarrow> DataType
   \<Rightarrow> DataFormat \<Rightarrow> nat \<Rightarrow> string option" where
  "DrawPreviewData me libc host addr mem_data mem_size data_type data_format out_buf_size =
     (let elem_size = DataTypeGetSize data_type;
          size' = (case mem_data of
                     None \<Rightarrow> elem_size
                   | Some m \<Rightarrow> if addr + of_nat elem_size > mem_size then unat (mem_size - addr)
                               else elem_size);
          defined = (case mem_data of
                       None \<Rightarrow> True
                     | Some m \<Rightarrow> size' \<le> 8
                         \<and> (case ReadFn me of Some f \<Rightarrow> True
                                             | None \<Rightarrow> unat addr + size' \<le> length m));
          buf = (case mem_data of
                   None \<Rightarrow> take size' (object_bytes host 8 addr)
                 | Some m \<Rightarrow>
                     (case ReadFn me of
                        Some f \<Rightarrow> map (\<lambda>i. f m (addr + of_nat i)) [0..<size']
                      | None \<Rightarrow> take size' (drop (unat addr) m)))
      in if \<not> defined then None
         else if data_format = DataFormat_Bin then
           Some (snprintf_truncate out_buf_size
                   (FormatBinary (EndianessCopy me host (replicate 8 0) buf size') (int size' * 8)))
         else Some (snprintf_truncate out_buf_size
           (case data_type of
              DataType_S8 \<Rightarrow>
                (let int8 :: 8 word = preview_decode me host elem_size buf size'
                 in if data_format = DataFormat_Dec then printf_d (sint int8)
                    else ''0x'' @ printf_0x 2 (unat ((scast int8 :: 32 word) AND 0xFF)))
            | DataType_U8 \<Rightarrow>
                (let uint8 :: 8 word = preview_decode me host elem_size buf size'
                 in if data_format = DataFormat_Dec then printf_u (unat uint8)
                    else ''0x'' @ printf_0x 2 (unat ((ucast uint8 :: 32 word) AND 0xFF)))
            | DataType_S16 \<Rightarrow>
                (let int16 :: 16 word = preview_decode me host elem_size buf size'
                 in if data_format = DataFormat_Dec then printf_d (sint int16)
                    else ''0x'' @ printf_0x 4 (unat ((scast int16 :: 32 word) AND 0xFFFF)))
            | DataType_U16 \<Rightarrow>
                (let uint16 :: 16 word = preview_decode me host elem_size buf size'
                 in if data_format = DataFormat_Dec then printf_u (unat uint16)
                    else ''0x'' @ printf_0x 4 (unat ((ucast uint16 :: 32 word) AND 0xFFFF)))
            | DataType_S32 \<Rightarrow>
                (let int32 :: 32 word = preview_decode me host elem_size buf size'
                 in if data_format = DataFormat_Dec then printf_d (sint int32)
                    else ''0x'' @ printf_0x 8 (unat int32))
            | DataType_U32 \<Rightarrow>
                (let uint32 :: 32 word = preview_decode me host elem_size buf size'
                 in if data_format = DataFormat_Dec then printf_u (unat uint32)
                    else ''0x'' @ printf_0x 8 (unat uint32))
            | DataType_S64 \<Rightarrow>
                (let int64 :: 64 word = preview_decode me host elem_size buf size'
                 in if data_format = DataFormat_Dec then printf_d (sint int64)
                    else ''0x'' @ printf_0x 16 (unat int64))
            | DataType_U64 \<Rightarrow>
                (let uint64 :: 64 word = preview_decode me host elem_size buf size'
                 in if data_format = DataFormat_Dec then printf_u (unat uint64)
                    else ''0x'' @ printf_0x 16 (unat uint64))
            | DataType_HalfFloat \<Rightarrow>
                (let float16 :: 16 word = preview_decode me host elem_size buf size';
                     float32 = float_of_half float16
                 in if data_format = DataFormat_Dec then printf_f libc (double_of_float float32)
                    else printf_a (double_of_float float32))
            | DataType_Float \<Rightarrow>
                (let float32 :: 32 word = preview_decode me host elem_size buf size'
                 in if data_format = DataFormat_Dec then printf_f libc (double_of_float float32)
                    else printf_a (double_of_float float32))
            | DataType_Double \<Rightarrow>
                (let float64 :: 64 word = preview_decode me host elem_size buf size'
                 in if data_format = DataFormat_Dec then printf_f libc float64
                    else printf_a float64))))"

section \<open>The converter's input\<close>

text \<open>
  The block of \<open>DrawPreviewLine\<close> that runs when the converter's text was edited or one
  of its selectors was used: it scans \<open>ValueConverterInputBuf\<close> according to the radix
  and the type. A scan that fails stores nothing. For \<open>HalfFloat\<close> in decimal or binary
  radix the scan goes into the local \<open>_f16\<close>, which is dropped. For \<open>Float\<close> the scan
  writes the first four bytes of the object \<open>ValueToConvert\<close>.
\<close>

definition converter_input :: "MemoryEditor \<Rightarrow> C_library \<Rightarrow> ByteOrder \<Rightarrow> MemoryEditor" where
  "converter_input me libc host =
     (case ConvertValueFormat me of
        DataFormat_Hex \<Rightarrow>
          (case sscanf_zX (ValueConverterInputBuf me) of
             None \<Rightarrow> me
           | Some v \<Rightarrow> me\<lparr>ValueToConvert := v\<rparr>)
      | _ \<Rightarrow>
          if ConvertValueType me = DataType_HalfFloat then
            (let f16_local :: 32 word =
                   (case sscanf_f libc (ValueConverterInputBuf me) of
                      None \<Rightarrow> float_of_half (object_value host (take 2 (object_bytes host 8 (ValueToConvert me))))
                    | Some f \<Rightarrow> f)
             in me)
          else if ConvertValueType me = DataType_Float then
            (case sscanf_f libc (ValueConverterInputBuf me) of
               None \<Rightarrow> me
             | Some f \<Rightarrow>
                 me\<lparr>ValueToConvert :=
                      object_value host
                        (memcpy_bytes (object_bytes host 8 (ValueToConvert me)) (object_bytes host 4 f) 4)\<rparr>)
          else if ConvertValueType me = DataType_Double then
            (case sscanf_lf libc (ValueConverterInputBuf me) of
               None \<Rightarrow> me
             | Some d \<Rightarrow> me\<lparr>ValueToConvert := d\<rparr>)
          else if DataType_index (ConvertValueType me) mod 2 = 0 then
            (case sscanf_ld (ValueConverterInputBuf me) of
               None \<Rightarrow> me
             | Some v \<Rightarrow> me\<lparr>ValueToConvert := v\<rparr>)
          else
            (case sscanf_lu (ValueConverterInputBuf me) of
               None \<Rightarrow> me
             | Some v \<Rightarrow> me\<lparr>ValueToConvert := v\<rparr>))"

section \<open>Vocabulary and concrete inputs for the typed preview\<close>

text \<open>
  The converter calls \<open>DrawPreviewData(ValueToConvert, nullptr, 0, ConvertValueType, ...)\<close>.
  \<open>converter_object\<close> is the object representation of the typed variable of that call
  after \<open>EndianessCopy\<close> has filled it from the first bytes of the value \<open>v\<close>.
\<close>

definition converter_object :: "MemoryEditor \<Rightarrow> ByteOrder \<Rightarrow> DataType \<Rightarrow> size_t \<Rightarrow> ImU8 list" where
  "converter_object me host data_type v =
     EndianessCopy me host (replicate (DataTypeGetSize data_type) 0)
       (take (DataTypeGetSize data_type) (object_bytes host 8 v)) (DataTypeGetSize data_type)"

text \<open>
  Closed examples need a value for the C library's decimal floating-point conversions.
  None of the examples that use \<open>libc_unused\<close> reaches one of them.
\<close>

definition libc_unused :: C_library where
  "libc_unused = \<lparr>printf_f = (\<lambda>d. []), sscanf_f = (\<lambda>s. None), sscanf_lf = (\<lambda>s. None)\<rparr>"

text \<open>An editor in which the byte-order selector of the preview stands on "BE".\<close>

definition big_endian_selected :: MemoryEditor where
  "big_endian_selected = (MemoryEditor_new [])\<lparr>PreviewEndianess := 1\<rparr>"


text \<open>
  For the converter: a C library of which only the reading of the text \<open>1.5\<close> is known
  (as the \<open>float\<close> \<open>0x3FC00000\<close> and the \<open>double\<close> \<open>0x3FF8000000000000\<close>; any other
  text is taken as not a number), and an editor whose converter stands on the decimal
  radix with a given type and input text and holds a recognisable value.
\<close>

definition libc_reading_1_5 :: C_library where
  "libc_reading_1_5 =
     \<lparr>printf_f = (\<lambda>d. []),
      sscanf_f = (\<lambda>s. if s = ''1.5'' then Some 0x3FC00000 else None),
      sscanf_lf = (\<lambda>s. if s = ''1.5'' then Some 0x3FF8000000000000 else None)\<rparr>"

definition decimal_converter :: "DataType \<Rightarrow> string \<Rightarrow> MemoryEditor" where
  "decimal_converter data_type input =
     (MemoryEditor_new [])\<lparr>ConvertValueFormat := DataFormat_Dec, ConvertValueType := data_type,
        ValueConverterInputBuf := input, ValueToConvert := 0x1122334455667788\<rparr>"

section \<open>Properties of IsInRange\<close>

subsection \<open>Auxiliary facts\<close>

lemma ranges_overlap_iff: "ranges_overlap a b \<longleftrightarrow> (\<exists>x. in_range a x \<and> in_range b x)"
proof
  assume "ranges_overlap a b"
  then have "in_range a (max (RangeStartAddress a) (RangeStartAddress b))
           \<and> in_range b (max (RangeStartAddress a) (RangeStartAddress b))"
    by (auto simp: ranges_overlap_def in_range_def)
  then show "\<exists>x. in_range a x \<and> in_range b x" ..
next
  assume "\<exists>x. in_range a x \<and> in_range b x"
  then show "ranges_overlap a b"
    by (auto simp: ranges_overlap_def in_range_def)
qed

lemma binary_find_found:
  "binary_find cmp xs lo hi = (True, i) \<Longrightarrow> lo \<le> i \<and> i < hi \<and> cmp (xs ! i) = found"
proof (induction cmp xs lo hi rule: binary_find.induct)
  case (1 cmp xs lo hi)
  show ?case
  proof (cases "lo < hi")
    case False
    with "1.prems" show ?thesis by (simp add: binary_find.simps [of cmp xs lo hi])
  next
    case True
    let ?mid = "lo + (hi - lo) div 2"
    have mid: "lo \<le> ?mid" "?mid < hi" using True by auto
    show ?thesis
    proof (cases "cmp (xs ! ?mid)")
      case go_left
      with True "1.prems" have "binary_find cmp xs lo ?mid = (True, i)"
        by (simp add: binary_find.simps [of cmp xs lo hi])
      from "1.IH"(1) [OF True go_left this] mid show ?thesis by auto
    next
      case go_right
      with True "1.prems" have "binary_find cmp xs (Suc ?mid) hi = (True, i)"
        by (simp add: binary_find.simps [of cmp xs lo hi])
      from "1.IH"(2) [OF True go_right this] mid show ?thesis by auto
    next
      case found
      with True "1.prems" have "i = ?mid"
        by (simp add: binary_find.simps [of cmp xs lo hi])
      with found mid show ?thesis by simp
    next
      case cancel_search
      with True "1.prems" show ?thesis
        by (simp add: binary_find.simps [of cmp xs lo hi])
    qed
  qed
qed

lemma binary_find_not_found:
  "\<not> fst (binary_find cmp xs lo hi) \<Longrightarrow> binary_find cmp xs lo hi = (False, length xs)"
proof (induction cmp xs lo hi rule: binary_find.induct)
  case (1 cmp xs lo hi)
  show ?case
  proof (cases "lo < hi")
    case False
    then show ?thesis by (simp add: binary_find.simps [of cmp xs lo hi])
  next
    case True
    let ?mid = "lo + (hi - lo) div 2"
    show ?thesis
    proof (cases "cmp (xs ! ?mid)")
      case go_left
      with True "1.prems" "1.IH"(1) show ?thesis
        by (simp add: binary_find.simps [of cmp xs lo hi])
    next
      case go_right
      with True "1.prems" "1.IH"(2) show ?thesis
        by (simp add: binary_find.simps [of cmp xs lo hi])
    next
      case found
      with True "1.prems" show ?thesis
        by (simp add: binary_find.simps [of cmp xs lo hi])
    next
      case cancel_search
      with True show ?thesis
        by (simp add: binary_find.simps [of cmp xs lo hi])
    qed
  qed
qed

lemma IsInRange_loop_no_match:
  "\<forall>r \<in> set rs. \<not> in_range r addr \<Longrightarrow>
   IsInRange_loop rs idx addr color out = (NotInRange, color, out)"
  by (induction rs arbitrary: idx) (auto simp: in_range_def)

lemma IsInRange_loop_first_match:
  "k < length rs \<Longrightarrow> in_range (rs ! k) addr \<Longrightarrow> \<forall>j<k. \<not> in_range (rs ! j) addr \<Longrightarrow>
   IsInRange_loop rs idx addr color out =
     (if isActive (rs ! k)
      then (position_in_range (rs ! k) addr, RangeColor (rs ! k), map_option (\<lambda>_. idx + k) out)
      else (NotInRange, RangeColor (rs ! k), out))"
proof (induction rs arbitrary: idx k)
  case Nil
  then show ?case by simp
next
  case (Cons r rs)
  show ?case
  proof (cases k)
    case 0
    with Cons.prems show ?thesis by (simp add: in_range_def)
  next
    case (Suc k')
    from Cons.prems Suc have r: "\<not> in_range r addr" by auto
    from Cons.prems Suc have k': "k' < length rs" "in_range (rs ! k') addr"
      "\<forall>j<k'. \<not> in_range (rs ! j) addr" by auto
    from Cons.IH [OF k', of "Suc idx"] r Suc show ?thesis
      by (auto simp: in_range_def)
  qed
qed

lemma binary_find_at:
  "hi \<le> length xs \<Longrightarrow> lo \<le> k \<Longrightarrow> k < hi \<Longrightarrow>
   \<forall>i. lo \<le> i \<and> i < k \<longrightarrow> cmp (xs ! i) = go_right \<Longrightarrow>
   \<forall>i. k < i \<and> i < hi \<longrightarrow> cmp (xs ! i) = go_left \<Longrightarrow>
   cmp (xs ! k) = found \<or> cmp (xs ! k) = cancel_search \<Longrightarrow>
   binary_find cmp xs lo hi = (if cmp (xs ! k) = found then (True, k) else (False, length xs))"
proof (induction cmp xs lo hi rule: binary_find.induct)
  case (1 cmp xs lo hi)
  let ?mid = "lo + (hi - lo) div 2"
  from "1.prems" have lohi: "lo < hi" by simp
  have mid: "lo \<le> ?mid" "?mid < hi" using lohi by auto
  consider "k < ?mid" | "k = ?mid" | "?mid < k" by linarith
  then show ?case
  proof cases
    case 1
    with "1.prems"(5) mid have c: "cmp (xs ! ?mid) = go_left" by simp
    have "binary_find cmp xs lo ?mid =
          (if cmp (xs ! k) = found then (True, k) else (False, length xs))"
      using "1.IH"(1) [OF lohi c] "1.prems" 1 mid by simp
    with lohi c show ?thesis
      by (simp add: binary_find.simps [of cmp xs lo hi])
  next
    case 2
    with lohi "1.prems"(6) show ?thesis
      by (auto simp: binary_find.simps [of cmp xs lo hi])
  next
    case 3
    with "1.prems"(4) mid have c: "cmp (xs ! ?mid) = go_right" by simp
    have "binary_find cmp xs (Suc ?mid) hi =
          (if cmp (xs ! k) = found then (True, k) else (False, length xs))"
      using "1.IH"(2) [OF lohi c] "1.prems" 3 mid by simp
    with lohi c show ?thesis
      by (simp add: binary_find.simps [of cmp xs lo hi])
  qed
qed

lemma ordered_ranges_nth:
  "ordered_ranges rs \<Longrightarrow> i < j \<Longrightarrow> j < length rs \<Longrightarrow>
   RangeStartAddress (rs ! i) \<le> RangeStartAddress (rs ! j) \<and>
   RangeEndAddress (rs ! i) \<le> RangeStartAddress (rs ! j)"
  by (simp add: ordered_ranges_def sorted_wrt_iff_nth_less)

lemma ordered_ranges_paths:
  assumes ord: "ordered_ranges rs"
  shows "fst (IsInRange_linear rs addr color out) = fst (IsInRange_binary rs addr color out)
       \<and> (fst (IsInRange_linear rs addr color out) \<noteq> NotInRange \<longrightarrow>
            IsInRange_linear rs addr color out = IsInRange_binary rs addr color out)"
proof (cases "\<exists>k<length rs. in_range (rs ! k) addr")
  case False
  then have none: "\<forall>r\<in>set rs. \<not> in_range r addr"
    by (auto simp: in_set_conv_nth)
  have "\<not> fst (binary_find (IsInRange_compare addr) rs 0 (length rs))"
  proof
    assume "fst (binary_find (IsInRange_compare addr) rs 0 (length rs))"
    then obtain i where "binary_find (IsInRange_compare addr) rs 0 (length rs) = (True, i)"
      by (cases "binary_find (IsInRange_compare addr) rs 0 (length rs)") auto
    from binary_find_found [OF this]
    have "i < length rs" "IsInRange_compare addr (rs ! i) = found" by auto
    then have "in_range (rs ! i) addr"
      by (auto simp: IsInRange_compare_def in_range_def split: if_splits)
    with False \<open>i < length rs\<close> show False by blast
  qed
  then have "binary_find (IsInRange_compare addr) rs 0 (length rs) = (False, length rs)"
    by (rule binary_find_not_found)
  with IsInRange_loop_no_match [OF none] show ?thesis
    by (simp add: IsInRange_linear_def IsInRange_binary_def)
next
  case True
  then obtain k where k: "k < length rs" "in_range (rs ! k) addr" by blast
  have before: "\<not> in_range (rs ! j) addr" "IsInRange_compare addr (rs ! j) = go_right"
    if "j < k" for j
    using ordered_ranges_nth [OF ord that k(1)] k(2)
    by (auto simp: in_range_def IsInRange_compare_def)
  have after: "IsInRange_compare addr (rs ! j) = go_left" if "k < j" "j < length rs" for j
    using ordered_ranges_nth [OF ord that] k(2)
    by (auto simp: in_range_def IsInRange_compare_def)
  have at: "IsInRange_compare addr (rs ! k) = (if isActive (rs ! k) then found else cancel_search)"
    using k(2) by (auto simp: in_range_def IsInRange_compare_def)
  have "binary_find (IsInRange_compare addr) rs 0 (length rs) =
        (if IsInRange_compare addr (rs ! k) = found then (True, k) else (False, length rs))"
    by (rule binary_find_at) (use k before after at in auto)
  with at have b: "binary_find (IsInRange_compare addr) rs 0 (length rs) =
        (if isActive (rs ! k) then (True, k) else (False, length rs))"
    by simp
  have l: "IsInRange_loop rs 0 addr color out =
        (if isActive (rs ! k)
         then (position_in_range (rs ! k) addr, RangeColor (rs ! k), map_option (\<lambda>_. 0 + k) out)
         else (NotInRange, RangeColor (rs ! k), out))"
    by (rule IsInRange_loop_first_match) (use k before in auto)
  from b l show ?thesis
    by (simp add: IsInRange_linear_def IsInRange_binary_def)
qed


lemma ordered_rangesI:
  assumes "sorted_by_start rs" "non_overlapping rs"
    and wf: "\<forall>r\<in>set rs. RangeStartAddress r < RangeEndAddress r"
  shows "ordered_ranges rs"
proof -
  have "RangeStartAddress (rs ! i) \<le> RangeStartAddress (rs ! j)
      \<and> RangeEndAddress (rs ! i) \<le> RangeStartAddress (rs ! j)"
    if "i < j" "j < length rs" for i j
  proof -
    from that assms(1) have s: "RangeStartAddress (rs ! i) \<le> RangeStartAddress (rs ! j)"
      by (simp add: sorted_by_start_def sorted_wrt_iff_nth_less)
    from that assms(2) have "\<not> ranges_overlap (rs ! i) (rs ! j)"
      by (simp add: non_overlapping_def sorted_wrt_iff_nth_less)
    moreover from that wf have "RangeStartAddress (rs ! j) < RangeEndAddress (rs ! j)"
      by simp
    ultimately have "RangeEndAddress (rs ! i) \<le> RangeStartAddress (rs ! j)"
      using s by (auto simp: ranges_overlap_def max_def min_def split: if_splits)
    with s show ?thesis ..
  qed
  then show ?thesis
    by (simp add: ordered_ranges_def sorted_wrt_iff_nth_less)
qed
lemma IsInRange_loop_match:
  "IsInRange_loop rs idx addr color out = (pos, color', out') \<Longrightarrow> pos \<noteq> NotInRange \<Longrightarrow>
   \<exists>k<length rs. isActive (rs ! k) \<and> in_range (rs ! k) addr \<and> (\<forall>j<k. \<not> in_range (rs ! j) addr)
     \<and> pos = position_in_range (rs ! k) addr \<and> color' = RangeColor (rs ! k)
     \<and> out' = map_option (\<lambda>_. idx + k) out"
proof (induction rs arbitrary: idx)
  case Nil
  then show ?case by simp
next
  case (Cons r rs)
  show ?case
  proof (cases "in_range r addr")
    case True
    with Cons.prems have "isActive r \<and> pos = position_in_range r addr \<and> color' = RangeColor r
        \<and> out' = map_option (\<lambda>_. idx + 0) out"
      by (auto simp: in_range_def split: if_splits)
    with True show ?thesis by (intro exI [of _ 0]) simp
  next
    case False
    with Cons.prems have "IsInRange_loop rs (Suc idx) addr color out = (pos, color', out')"
      by (auto simp: in_range_def)
    from Cons.IH [OF this Cons.prems(2)] obtain k where
      k: "k < length rs" "isActive (rs ! k)" "in_range (rs ! k) addr"
        "\<forall>j<k. \<not> in_range (rs ! j) addr"
        "pos = position_in_range (rs ! k) addr" "color' = RangeColor (rs ! k)"
        "out' = map_option (\<lambda>_. Suc idx + k) out" by blast
    have "\<forall>j<Suc k. \<not> in_range ((r # rs) ! j) addr"
      using False k(4) by (auto simp: less_Suc_eq_0_disj)
    with k show ?thesis by (intro exI [of _ "Suc k"]) simp
  qed
qed

lemma IsInRange_binary_match:
  assumes "IsInRange_binary rs addr color out = (pos, color', out')" and "pos \<noteq> NotInRange"
  shows "\<exists>k<length rs. isActive (rs ! k) \<and> in_range (rs ! k) addr
     \<and> pos = position_in_range (rs ! k) addr \<and> color' = RangeColor (rs ! k)
     \<and> out' = map_option (\<lambda>_. k) out"
proof -
  obtain f i where b: "binary_find (IsInRange_compare addr) rs 0 (length rs) = (f, i)"
    by (cases "binary_find (IsInRange_compare addr) rs 0 (length rs)")
  with assms have f: "f" by (cases f) (auto simp: IsInRange_binary_def)
  with b binary_find_found [of "IsInRange_compare addr" rs 0 "length rs" i]
  have i: "i < length rs" "IsInRange_compare addr (rs ! i) = found" by auto
  then have "isActive (rs ! i)" "in_range (rs ! i) addr"
    by (auto simp: IsInRange_compare_def in_range_def split: if_splits)
  moreover from assms(1) b f have "pos = position_in_range (rs ! i) addr" "color' = RangeColor (rs ! i)"
    "out' = map_option (\<lambda>_. i) out"
    by (auto simp: IsInRange_binary_def)
  ultimately show ?thesis using i(1) by blast
qed

lemma IsInRange_match:
  assumes "IsInRange rs addr color out = (pos, color', out')" and "pos \<noteq> NotInRange"
  shows "\<exists>k<length rs. isActive (rs ! k) \<and> in_range (rs ! k) addr
     \<and> pos = position_in_range (rs ! k) addr \<and> color' = RangeColor (rs ! k)
     \<and> out' = map_option (\<lambda>_. k) out"
proof (cases "length rs < 100")
  case True
  with assms have "IsInRange_loop rs 0 addr color out = (pos, color', out')"
    by (auto simp: IsInRange_def IsInRange_linear_def split: if_splits)
  from IsInRange_loop_match [OF this assms(2)] show ?thesis by auto
next
  case False
  with assms have "IsInRange_binary rs addr color out = (pos, color', out')"
    by (auto simp: IsInRange_def split: if_splits)
  from IsInRange_binary_match [OF this assms(2)] show ?thesis .
qed

lemma position_in_range_Start: "position_in_range r addr = Start \<longleftrightarrow> addr = RangeStartAddress r"
  by (simp add: position_in_range_def)

lemma position_in_range_End:
  "position_in_range r addr = End \<longleftrightarrow> addr = RangeEndAddress r - 1 \<and> addr \<noteq> RangeStartAddress r"
  by (auto simp: position_in_range_def)

lemma position_in_range_Middle:
  "position_in_range r addr = Middle \<longleftrightarrow> addr \<noteq> RangeStartAddress r \<and> addr \<noteq> RangeEndAddress r - 1"
  by (auto simp: position_in_range_def)

lemma position_in_range_not_NotInRange: "position_in_range r addr \<noteq> NotInRange"
  by (simp add: position_in_range_def)

lemma range_10_15_examples:
  "fst (IsInRange range_10_15 10 color out) = Start"
  "fst (IsInRange range_10_15 14 color out) = End"
  "fst (IsInRange range_10_15 15 color out) = NotInRange"
  by (simp_all add: range_10_15_def IsInRange_def IsInRange_linear_def position_in_range_def)

lemma range_10_15_Middle:
  assumes "11 \<le> addr" "addr \<le> 13"
  shows "fst (IsInRange range_10_15 addr color out) = Middle"
proof -
  from assms have "10 < addr" "addr < 14" "addr < 15"
    by (simp_all add: word_le_nat_alt word_less_nat_alt)
  then show ?thesis
    by (auto simp add: range_10_15_def IsInRange_def IsInRange_linear_def position_in_range_def)
qed

lemma IsInRange_no_active:
  assumes "\<forall>r\<in>set rs. isActive r \<longrightarrow> \<not> in_range r addr"
  shows "fst (IsInRange_linear rs addr color out) = NotInRange"
    and "fst (IsInRange_binary rs addr color out) = NotInRange"
    and "fst (IsInRange rs addr color out) = NotInRange"
proof -
  show "fst (IsInRange_linear rs addr color out) = NotInRange"
  proof (rule ccontr)
    assume n: "fst (IsInRange_linear rs addr color out) \<noteq> NotInRange"
    obtain pos c' out' where e: "IsInRange_loop rs 0 addr color out = (pos, c', out')"
      by (cases "IsInRange_loop rs 0 addr color out")
    with n have "pos \<noteq> NotInRange" by (simp add: IsInRange_linear_def)
    from IsInRange_loop_match [OF e this] assms show False by auto
  qed
  show "fst (IsInRange_binary rs addr color out) = NotInRange"
  proof (rule ccontr)
    assume n: "fst (IsInRange_binary rs addr color out) \<noteq> NotInRange"
    obtain pos c' out' where e: "IsInRange_binary rs addr color out = (pos, c', out')"
      by (cases "IsInRange_binary rs addr color out")
    with n have "pos \<noteq> NotInRange" by simp
    from IsInRange_binary_match [OF e this] assms show False by auto
  qed
  show "fst (IsInRange rs addr color out) = NotInRange"
  proof (rule ccontr)
    assume n: "fst (IsInRange rs addr color out) \<noteq> NotInRange"
    obtain pos c' out' where e: "IsInRange rs addr color out = (pos, c', out')"
      by (cases "IsInRange rs addr color out")
    with n have "pos \<noteq> NotInRange" by simp
    from IsInRange_match [OF e this] assms show False by auto
  qed
qed

subsection \<open>Agreement of the two paths\<close>

text \<open>
  Claim C1. For every sequence of ranges that is sorted by start address and pairwise
  non-overlapping, each range a span with \<open>RangeStartAddress < RangeEndAddress\<close> as the
  data model requires of its callers, and for every address (so in particular for every
  address in \<open>[front.start, back.end)\<close>), the linear scan of the below-100 path and the
  binary search of the at-or-above-100 path return the same classification, and when that
  classification is a match they also leave the same colour and the same index behind.
\<close>

theorem IsInRange_paths_agree:
  assumes "sorted_by_start rs" and "non_overlapping rs"
    and "\<forall>r\<in>set rs. RangeStartAddress r < RangeEndAddress r"
  shows "fst (IsInRange_linear rs addr color out) = fst (IsInRange_binary rs addr color out)
       \<and> (fst (IsInRange_linear rs addr color out) \<noteq> NotInRange \<longrightarrow>
            IsInRange_linear rs addr color out = IsInRange_binary rs addr color out)"
proof -
  from assms have "ordered_ranges rs"
    by (rule ordered_rangesI)
  then show ?thesis
    by (rule ordered_ranges_paths)
qed

theorem IsInRange_paths_agree_witness:
  "sorted_by_start two_ranges \<and> non_overlapping two_ranges
   \<and> fst (IsInRange_linear two_ranges 12 0 (Some 7)) = Middle
   \<and> IsInRange_linear two_ranges 12 0 (Some 7) = IsInRange_binary two_ranges 12 0 (Some 7)"
proof -
  have h1: "sorted_by_start two_ranges"
    by (simp add: two_ranges_def sorted_by_start_def)
  have h2: "non_overlapping two_ranges"
    by (simp add: two_ranges_def non_overlapping_def ranges_overlap_def)
  have h3: "\<forall>r\<in>set two_ranges. RangeStartAddress r < RangeEndAddress r"
    by (simp add: two_ranges_def)
  have v: "fst (IsInRange_linear two_ranges 12 0 (Some 7)) = Middle"
    by (simp add: two_ranges_def IsInRange_linear_def position_in_range_def)
  from IsInRange_paths_agree [OF h1 h2 h3, of 12 0 "Some 7"] h1 h2 h3 v show ?thesis
    by simp
qed

subsection \<open>Classification of a matched address\<close>

text \<open>
  Claim C2, amended. For every sequence of ranges and every address, when \<open>IsInRange\<close>
  reports a match (a position other than \<open>NotInRange\<close>) there is an active range
  \<open>r\<close> of the sequence that contains the address, whose colour is left in \<open>color\<close> and
  whose index is written through \<open>out_range_idx\<close>, and the position is \<open>Start\<close>
  exactly when the address equals \<open>r.RangeStartAddress\<close>, \<open>End\<close> exactly when it
  equals \<open>r.RangeEndAddress - 1\<close> without being the start address, and \<open>Middle\<close>
  otherwise. The result is \<open>NotInRange\<close> when no active range contains the address,
  and when the sequence is empty. For the single active range \<open>[10, 15)\<close>: address 10
  gives \<open>Start\<close>, 14 gives \<open>End\<close>, 11 through 13 give \<open>Middle\<close>, 15 gives
  \<open>NotInRange\<close>.
\<close>

theorem IsInRange_classification:
  "(IsInRange rs addr color out = (pos, color', out') \<and> pos \<noteq> NotInRange \<longrightarrow>
      (\<exists>k<length rs. isActive (rs ! k) \<and> in_range (rs ! k) addr
         \<and> color' = RangeColor (rs ! k) \<and> out' = map_option (\<lambda>_. k) out
         \<and> (pos = Start \<longleftrightarrow> addr = RangeStartAddress (rs ! k))
         \<and> (pos = End \<longleftrightarrow> addr = RangeEndAddress (rs ! k) - 1 \<and> addr \<noteq> RangeStartAddress (rs ! k))
         \<and> (pos = Middle \<longleftrightarrow>
              addr \<noteq> RangeStartAddress (rs ! k) \<and> addr \<noteq> RangeEndAddress (rs ! k) - 1)))
   \<and> ((\<forall>r\<in>set rs. isActive r \<longrightarrow> \<not> in_range r addr) \<longrightarrow>
        fst (IsInRange rs addr color out) = NotInRange)
   \<and> fst (IsInRange [] addr color out) = NotInRange
   \<and> fst (IsInRange range_10_15 10 color out) = Start
   \<and> fst (IsInRange range_10_15 14 color out) = End
   \<and> (11 \<le> addr \<and> addr \<le> 13 \<longrightarrow> fst (IsInRange range_10_15 addr color out) = Middle)
   \<and> fst (IsInRange range_10_15 15 color out) = NotInRange"
proof -
  have "\<exists>k<length rs. isActive (rs ! k) \<and> in_range (rs ! k) addr
         \<and> color' = RangeColor (rs ! k) \<and> out' = map_option (\<lambda>_. k) out
         \<and> (pos = Start \<longleftrightarrow> addr = RangeStartAddress (rs ! k))
         \<and> (pos = End \<longleftrightarrow> addr = RangeEndAddress (rs ! k) - 1 \<and> addr \<noteq> RangeStartAddress (rs ! k))
         \<and> (pos = Middle \<longleftrightarrow>
              addr \<noteq> RangeStartAddress (rs ! k) \<and> addr \<noteq> RangeEndAddress (rs ! k) - 1)"
    if "IsInRange rs addr color out = (pos, color', out')" "pos \<noteq> NotInRange"
  proof -
    from IsInRange_match [OF that] obtain k where k: "k < length rs" "isActive (rs ! k)"
      "in_range (rs ! k) addr" "pos = position_in_range (rs ! k) addr"
      "color' = RangeColor (rs ! k)" "out' = map_option (\<lambda>_. k) out" by blast
    from k(4) have "pos = Start \<longleftrightarrow> addr = RangeStartAddress (rs ! k)"
      "pos = End \<longleftrightarrow> addr = RangeEndAddress (rs ! k) - 1 \<and> addr \<noteq> RangeStartAddress (rs ! k)"
      "pos = Middle \<longleftrightarrow> addr \<noteq> RangeStartAddress (rs ! k) \<and> addr \<noteq> RangeEndAddress (rs ! k) - 1"
      by (simp_all only: position_in_range_Start position_in_range_End position_in_range_Middle)
    with k show ?thesis by blast
  qed
  moreover have "fst (IsInRange [] addr color out) = NotInRange"
    by (simp add: IsInRange_def)
  ultimately show ?thesis
    using IsInRange_no_active(3) [of rs addr color out] range_10_15_examples [of color out]
      range_10_15_Middle [of addr color out]
    by blast
qed

theorem IsInRange_classification_witness:
  "IsInRange two_ranges 14 0 (Some 7) = (End, 1, Some 0)
   \<and> (\<exists>k<length two_ranges. isActive (two_ranges ! k) \<and> in_range (two_ranges ! k) 14
        \<and> 14 = RangeEndAddress (two_ranges ! k) - 1 \<and> Some 0 = map_option (\<lambda>_. k) (Some (7::nat)))
   \<and> fst (IsInRange two_ranges 25 0 (Some 7)) = NotInRange
   \<and> fst (IsInRange range_10_15 12 0 (Some 7)) = Middle"
proof -
  have e: "IsInRange two_ranges 14 0 (Some 7) = (End, 1, Some 0)"
    by (simp add: two_ranges_def IsInRange_def IsInRange_linear_def position_in_range_def)
  have n: "\<forall>r\<in>set two_ranges. isActive r \<longrightarrow> \<not> in_range r 25"
    by (simp add: two_ranges_def in_range_def)
  have m: "(11::size_t) \<le> 12 \<and> (12::size_t) \<le> 13" by simp
  from IsInRange_classification [of two_ranges 14 0 "Some 7" End 1 "Some 0"] e
  have 1: "\<exists>k<length two_ranges. isActive (two_ranges ! k) \<and> in_range (two_ranges ! k) 14
        \<and> 14 = RangeEndAddress (two_ranges ! k) - 1 \<and> Some 0 = map_option (\<lambda>_. k) (Some (7::nat))"
    by auto
  from IsInRange_classification [of two_ranges 25 0 "Some 7"] n
  have 2: "fst (IsInRange two_ranges 25 0 (Some 7)) = NotInRange" by blast
  from IsInRange_classification [of _ 12 0 "Some 7"] m
  have 3: "fst (IsInRange range_10_15 12 0 (Some 7)) = Middle" by blast
  from e 1 2 3 show ?thesis by blast
qed

text \<open>
  The claim as first stated asks for \<open>End\<close> whenever the address equals
  \<open>RangeEndAddress - 1\<close>. In a one-byte range the start address is also the last one,
  and the test for \<open>Start\<close> comes first.
\<close>

theorem IsInRange_classification_counterexample:
  "fst (IsInRange one_byte_range 10 0 (Some 7)) = Start
   \<and> isActive (one_byte_range ! 0) \<and> in_range (one_byte_range ! 0) 10
   \<and> (10 :: size_t) = RangeEndAddress (one_byte_range ! 0) - 1"
  by (simp add: one_byte_range_def IsInRange_def IsInRange_linear_def position_in_range_def in_range_def)

subsection \<open>Inactive ranges\<close>

text \<open>
  Claim C6. Inactive ranges are never reported. For every sequence of ranges, an address
  that only inactive ranges contain yields \<open>NotInRange\<close> on the linear path, on the
  binary-search path and from \<open>IsInRange\<close> itself. On the linear path, when the first
  range in storage order that contains the address is inactive, the result is
  \<open>NotInRange\<close> whatever ranges follow it (a later active range containing the address
  is not reported); the colour of the inactive range is left in \<open>color\<close>.
\<close>

theorem inactive_never_reported:
  "((\<forall>r\<in>set rs. in_range r addr \<longrightarrow> \<not> isActive r) \<longrightarrow>
       fst (IsInRange_linear rs addr color out) = NotInRange
     \<and> fst (IsInRange_binary rs addr color out) = NotInRange
     \<and> fst (IsInRange rs addr color out) = NotInRange)
   \<and> ((\<forall>p\<in>set pre. \<not> in_range p addr) \<and> in_range r addr \<and> \<not> isActive r \<longrightarrow>
        IsInRange_linear (pre @ r # rest) addr color out = (NotInRange, RangeColor r, out)
      \<and> (length (pre @ r # rest) < 100 \<longrightarrow>
           fst (IsInRange (pre @ r # rest) addr color out) = NotInRange))"
proof -
  have a: "fst (IsInRange_linear rs addr color out) = NotInRange
     \<and> fst (IsInRange_binary rs addr color out) = NotInRange
     \<and> fst (IsInRange rs addr color out) = NotInRange"
    if "\<forall>r\<in>set rs. in_range r addr \<longrightarrow> \<not> isActive r"
  proof -
    from that have "\<forall>r\<in>set rs. isActive r \<longrightarrow> \<not> in_range r addr" by blast
    from IsInRange_no_active [OF this] show ?thesis by blast
  qed
  have b: "IsInRange_linear (pre @ r # rest) addr color out = (NotInRange, RangeColor r, out)
      \<and> (length (pre @ r # rest) < 100 \<longrightarrow>
           fst (IsInRange (pre @ r # rest) addr color out) = NotInRange)"
    if h: "\<forall>p\<in>set pre. \<not> in_range p addr" "in_range r addr" "\<not> isActive r"
  proof -
    have "IsInRange_loop (pre @ r # rest) 0 addr color out =
        (if isActive ((pre @ r # rest) ! length pre)
         then (position_in_range ((pre @ r # rest) ! length pre) addr,
               RangeColor ((pre @ r # rest) ! length pre),
               map_option (\<lambda>_. 0 + length pre) out)
         else (NotInRange, RangeColor ((pre @ r # rest) ! length pre), out))"
      by (rule IsInRange_loop_first_match) (use h in \<open>auto simp: nth_append\<close>)
    with h have l: "IsInRange_linear (pre @ r # rest) addr color out = (NotInRange, RangeColor r, out)"
      by (simp add: IsInRange_linear_def)
    then show ?thesis by (simp add: IsInRange_def)
  qed
  from a b show ?thesis by blast
qed

theorem inactive_never_reported_witness:
  "fst (IsInRange_binary two_ranges 25 0 (Some 7)) = NotInRange
   \<and> IsInRange_linear shadowed_range 25 0 (Some 7) = (NotInRange, 2, Some 7)
   \<and> in_range (shadowed_range ! 2) 25 \<and> isActive (shadowed_range ! 2)"
proof -
  have n: "\<forall>r\<in>set two_ranges. in_range r 25 \<longrightarrow> \<not> isActive r"
    by (simp add: two_ranges_def in_range_def)
  from inactive_never_reported [of two_ranges 25 0 "Some 7"] n
  have 1: "fst (IsInRange_binary two_ranges 25 0 (Some 7)) = NotInRange" by blast
  have s: "shadowed_range = [shadowed_range ! 0] @ shadowed_range ! 1 # [shadowed_range ! 2]"
    by (simp add: shadowed_range_def)
  have h: "(\<forall>p\<in>set [shadowed_range ! 0]. \<not> in_range p 25) \<and> in_range (shadowed_range ! 1) 25
      \<and> \<not> isActive (shadowed_range ! 1)"
    by (simp add: shadowed_range_def in_range_def)
  have c: "RangeColor (shadowed_range ! 1) = 2" by (simp add: shadowed_range_def)
  from inactive_never_reported [where addr = 25 and pre = "[shadowed_range ! 0]"
      and r = "shadowed_range ! 1" and rest = "[shadowed_range ! 2]" and color = 0
      and out = "Some 7"] h
  have "IsInRange_linear ([shadowed_range ! 0] @ shadowed_range ! 1 # [shadowed_range ! 2]) 25 0 (Some 7)
      = (NotInRange, RangeColor (shadowed_range ! 1), Some 7)" by blast
  with s c have 2: "IsInRange_linear shadowed_range 25 0 (Some 7) = (NotInRange, 2, Some 7)"
    by simp
  have 3: "in_range (shadowed_range ! 2) 25 \<and> isActive (shadowed_range ! 2)"
    by (simp add: shadowed_range_def in_range_def)
  from 1 2 3 show ?thesis by blast
qed

section \<open>Properties of the note outline\<close>

subsection \<open>Auxiliary facts\<close>

lemma uint_size_t_of_int: "0 \<le> i \<Longrightarrow> i < 2 ^ 64 \<Longrightarrow> uint (size_t_of_int i) = i"
  by (simp add: size_t_of_int_def uint_word_of_int take_bit_int_eq_self)

lemma uint_plus_size_t_of_int:
  "0 \<le> i \<Longrightarrow> uint a + i < 2 ^ 64 \<Longrightarrow> uint (a + size_t_of_int i) = uint a + i"
proof -
  assume i: "0 \<le> i" "uint a + i < 2 ^ 64"
  have "0 \<le> uint a" by simp
  with i have "i < 2 ^ 64" by linarith
  with i have u: "uint (size_t_of_int i) = i" by (simp add: uint_size_t_of_int)
  have "uint (a + size_t_of_int i) = (uint a + uint (size_t_of_int i)) mod 2 ^ 64"
    by (simp add: uint_word_ariths)
  with u i show ?thesis by simp
qed

lemma next_line_addresses:
  "addr + size_t_of_int (c - k - 1) + 1 + size_t_of_int k = addr + size_t_of_int c"
  "addr + size_t_of_int (c - k - 1) + 1 = addr + size_t_of_int (c - k)"
  by (simp_all add: size_t_of_int_def)

lemma hasRangeBelow_same_note:
  assumes n: "note_idx < length (Notes me)"
    and below: "in_range (Notes me ! note_idx) (addr + size_t_of_int (Cols me))"
    and col: "0 \<le> colIdx" "colIdx < Cols me"
    and nowrap: "uint addr + Cols me < 2 ^ 64"
    and line: "0 \<le> lineIdx" "lineIdx < line_max_idx" "line_max_idx < 2 ^ 31"
  shows "hasRangeBelow me (addr + size_t_of_int (Cols me - colIdx - 1)) note_idx
           (size_t_of_int lineIdx) (size_t_of_int colIdx) (size_t_of_int line_max_idx)"
proof -
  let ?next = "addr + size_t_of_int (Cols me - colIdx - 1) + 1"
  let ?cell = "?next + size_t_of_int colIdx"
  have cell: "?cell = addr + size_t_of_int (Cols me)" by (rule next_line_addresses)
  have "uint ?next = uint addr + (Cols me - colIdx)"
    unfolding next_line_addresses(2) using col nowrap
    by (intro uint_plus_size_t_of_int) auto
  moreover have "uint (addr + size_t_of_int (Cols me)) = uint addr + Cols me"
    using col nowrap by (intro uint_plus_size_t_of_int) auto
  ultimately have "?next \<le> ?cell"
    using col by (simp add: cell word_le_def)
  moreover from below have c: "?cell < RangeEndAddress (Notes me ! note_idx)"
    unfolding cell by (simp add: in_range_def)
  ultimately have nx: "?next < RangeEndAddress (Notes me ! note_idx)" by simp
  have "uint (size_t_of_int lineIdx) = lineIdx" "uint (size_t_of_int line_max_idx) = line_max_idx"
    using line by (auto intro!: uint_size_t_of_int)
  with line have l: "size_t_of_int lineIdx < size_t_of_int line_max_idx"
    by (simp add: word_less_def)
  from n nx c l show ?thesis
    by (simp add: hasRangeBelow_def Let_def)
qed

lemma bottom_edge_iff:
  "HorizontalBottom \<in> set (drawNoteRect me note_idx addr range_position colIdx lineIdx line_max_idx)
   \<longleftrightarrow> mid_cols_boundary me colIdx
      \<or> \<not> hasRangeBelow me (addr + size_t_of_int (Cols me - colIdx - 1)) note_idx
            (size_t_of_int lineIdx) (size_t_of_int colIdx) (size_t_of_int line_max_idx)"
  by (simp add: drawNoteRect_def Let_def)

subsection \<open>The bottom edge\<close>

text \<open>
  Claim C5, amended. For every cell for which \<open>drawNoteRect\<close> runs (a cell of an active
  note), the bottom edge is drawn if and only if a mid-column spacing gap lies at the
  cell's right boundary (\<open>OptMidColsCount > 0\<close> and the column is a group boundary:
  \<open>colIdx > 0\<close>, \<open>colIdx + 1 < Cols\<close> and \<open>colIdx + 1\<close> a multiple of
  \<open>OptMidColsCount\<close>) or \<open>hasRangeBelow\<close> reports no active note covering the cell
  directly below. In particular, for a note that occupies the same column on lines \<open>N\<close>
  and \<open>N + 1\<close>, with no mid-column gap at that column, the bottom edge at line \<open>N\<close> in
  that column is absent, provided line \<open>N\<close> is not the last line of the visible window
  (\<open>lineIdx < line_max_idx\<close>). Addresses are taken not to wrap around.
\<close>

theorem note_bottom_edge:
  "(HorizontalBottom \<in> set (drawNoteRect me note_idx addr range_position colIdx lineIdx line_max_idx)
     \<longleftrightarrow> (OptMidColsCount me > 0 \<and> colIdx > 0 \<and> colIdx + 1 < Cols me
           \<and> (colIdx + 1) mod OptMidColsCount me = 0)
        \<or> \<not> hasRangeBelow me (addr + size_t_of_int (Cols me - colIdx - 1)) note_idx
              (size_t_of_int lineIdx) (size_t_of_int colIdx) (size_t_of_int line_max_idx))
   \<and> (note_idx < length (Notes me)
        \<and> in_range (Notes me ! note_idx) addr
        \<and> in_range (Notes me ! note_idx) (addr + size_t_of_int (Cols me))
        \<and> 0 \<le> colIdx \<and> colIdx < Cols me \<and> uint addr + Cols me < 2 ^ 64
        \<and> \<not> mid_cols_boundary me colIdx
        \<and> 0 \<le> lineIdx \<and> lineIdx < line_max_idx \<and> line_max_idx < 2 ^ 31
      \<longrightarrow> HorizontalBottom \<notin> set (drawNoteRect me note_idx addr range_position colIdx lineIdx
                                    line_max_idx))"
proof (intro conjI impI)
  show "HorizontalBottom \<in> set (drawNoteRect me note_idx addr range_position colIdx lineIdx line_max_idx)
     \<longleftrightarrow> (OptMidColsCount me > 0 \<and> colIdx > 0 \<and> colIdx + 1 < Cols me
           \<and> (colIdx + 1) mod OptMidColsCount me = 0)
        \<or> \<not> hasRangeBelow me (addr + size_t_of_int (Cols me - colIdx - 1)) note_idx
              (size_t_of_int lineIdx) (size_t_of_int colIdx) (size_t_of_int line_max_idx)"
    by (simp only: bottom_edge_iff mid_cols_boundary_def)
next
  assume h: "note_idx < length (Notes me)
        \<and> in_range (Notes me ! note_idx) addr
        \<and> in_range (Notes me ! note_idx) (addr + size_t_of_int (Cols me))
        \<and> 0 \<le> colIdx \<and> colIdx < Cols me \<and> uint addr + Cols me < 2 ^ 64
        \<and> \<not> mid_cols_boundary me colIdx
        \<and> 0 \<le> lineIdx \<and> lineIdx < line_max_idx \<and> line_max_idx < 2 ^ 31"
  then have "hasRangeBelow me (addr + size_t_of_int (Cols me - colIdx - 1)) note_idx
           (size_t_of_int lineIdx) (size_t_of_int colIdx) (size_t_of_int line_max_idx)"
    by (intro hasRangeBelow_same_note) simp_all
  with h show "HorizontalBottom \<notin> set (drawNoteRect me note_idx addr range_position colIdx lineIdx
                                    line_max_idx)"
    by (simp only: bottom_edge_iff) simp
qed

theorem note_bottom_edge_witness:
  "HorizontalBottom \<notin> set (drawNoteRect two_line_note_editor 0 3 Middle 3 0 1)
   \<and> in_range (Notes two_line_note_editor ! 0) 3
   \<and> in_range (Notes two_line_note_editor ! 0) 17"
proof -
  have h: "0 < length (Notes two_line_note_editor)
        \<and> in_range (Notes two_line_note_editor ! 0) 3
        \<and> in_range (Notes two_line_note_editor ! 0) (3 + size_t_of_int (Cols two_line_note_editor))
        \<and> (0::int) \<le> 3 \<and> 3 < Cols two_line_note_editor
        \<and> uint (3 :: size_t) + Cols two_line_note_editor < 2 ^ 64
        \<and> \<not> mid_cols_boundary two_line_note_editor 3
        \<and> (0::int) \<le> 0 \<and> (0::int) < 1 \<and> (1::int) < 2 ^ 31"
    by (simp add: two_line_note_editor_def MemoryEditor_new_def in_range_def size_t_of_int_def
        mid_cols_boundary_def)
  have i: "in_range (Notes two_line_note_editor ! 0) 3 \<and> in_range (Notes two_line_note_editor ! 0) 17"
    by (simp add: two_line_note_editor_def MemoryEditor_new_def in_range_def)
  from note_bottom_edge [of two_line_note_editor 0 3 Middle 3 0 1] h
  have "HorizontalBottom \<notin> set (drawNoteRect two_line_note_editor 0 3 Middle 3 0 1)" by blast
  with i show ?thesis by blast
qed

text \<open>
  Without the proviso the particular case fails: when line \<open>N\<close> is the last visible line
  (\<open>lineIdx = line_max_idx = 0\<close>), \<open>hasRangeBelow\<close> answers false and the bottom edge is
  drawn at column 3, although the note covers address 3 and address 17 right below it and
  no gap follows column 3.
\<close>

theorem note_bottom_edge_counterexample:
  "isActive (Notes two_line_note_editor ! 0)
   \<and> in_range (Notes two_line_note_editor ! 0) 3
   \<and> in_range (Notes two_line_note_editor ! 0) (3 + size_t_of_int (Cols two_line_note_editor))
   \<and> \<not> mid_cols_boundary two_line_note_editor 3
   \<and> drawNoteRect two_line_note_editor 0 3 Middle 3 0 0 = [HorizontalTop, HorizontalBottom]"
  by (simp add: two_line_note_editor_def MemoryEditor_new_def in_range_def size_t_of_int_def
        mid_cols_boundary_def drawNoteRect_def hasRangeBelow_def Let_def)

section \<open>Properties of the highlight width\<close>

subsection \<open>Auxiliary facts\<close>













subsection \<open>When the fill is widened\<close>




section \<open>Properties of the typed preview\<close>

subsection \<open>Bytes and byte order\<close>

lemma IsBigEndian_simps: "IsBigEndian LittleEndian" "\<not> IsBigEndian BigEndian"
  by (simp_all add: IsBigEndian_def object_bytes_def le_bytes_def upt_conv_Cons)

lemma reversed_copy_eq:
  assumes "s \<le> length src"
  shows "reversed_copy dst src s = rev (take s src) @ drop s dst"
proof -
  have "map (\<lambda>i. src ! (s - 1 - i)) [0..<s] = rev (take s src)"
  proof (rule nth_equalityI)
    show "length (map (\<lambda>i. src ! (s - 1 - i)) [0..<s]) = length (rev (take s src))"
      using assms by simp
  next
    fix i assume "i < length (map (\<lambda>i. src ! (s - 1 - i)) [0..<s])"
    then have i: "i < s" by simp
    with assms have "rev (take s src) ! i = take s src ! (s - Suc i)"
      by (simp add: rev_nth)
    with i show "map (\<lambda>i. src ! (s - 1 - i)) [0..<s] ! i = rev (take s src) ! i"
      by simp
  qed
  then show ?thesis by (simp add: reversed_copy_def)
qed

lemma EndianessCopy_eq:
  assumes "s \<le> length src"
  shows "EndianessCopy me host dst src s =
     (if (host = LittleEndian) = (PreviewEndianess me \<noteq> 0) then rev (take s src) else take s src)
     @ drop s dst"
  using assms
  by (cases host)
     (simp_all add: EndianessCopy_def IsBigEndian_simps EndianessCopyBigEndian_def
        EndianessCopyLittleEndian_def reversed_copy_eq memcpy_bytes_def)

lemma bit_of_le_bytes:
  "bit (of_le_bytes bs :: 'a::len word) k \<longleftrightarrow>
     k < LENGTH('a) \<and> k div 8 < length bs \<and> bit (bs ! (k div 8)) (k mod 8)"
proof (induction bs arbitrary: k)
  case Nil
  then show ?case by simp
next
  case (Cons b bs)
  show ?case
  proof (cases "k < 8")
    case True
    then show ?thesis by (auto simp: bit_simps dest: bit_imp_le_length)
  next
    case False
    then have "k div 8 = Suc ((k - 8) div 8)" "(k - 8) mod 8 = k mod 8"
      by (simp_all add: le_div_geq le_mod_geq)
    with False Cons.IH [of "k - 8"] show ?thesis
      by (auto simp: bit_simps dest: bit_imp_le_length)
  qed
qed

lemma of_le_bytes_le_bytes:
  "LENGTH('a::len) \<le> 8 * n \<Longrightarrow> (of_le_bytes (le_bytes n (v::'b::len word)) :: 'a word) = ucast v"
  by (rule bit_word_eqI)
     (auto simp: bit_of_le_bytes le_bytes_def bit_simps less_mult_imp_div_less mult.commute)

lemma le_bytes_of_le_bytes:
  assumes "length bs = n" "8 * n \<le> LENGTH('a::len)"
  shows "le_bytes n (of_le_bytes bs :: 'a word) = bs"
proof (rule nth_equalityI)
  show "length (le_bytes n (of_le_bytes bs :: 'a word)) = length bs"
    using assms by (simp add: le_bytes_def)
next
  fix i assume "i < length (le_bytes n (of_le_bytes bs :: 'a word))"
  then have i: "i < n" by (simp add: le_bytes_def)
  show "le_bytes n (of_le_bytes bs :: 'a word) ! i = bs ! i"
  proof (rule bit_word_eqI)
    fix k assume k: "k < LENGTH(8)"
    with i assms have "8 * i + k < LENGTH('a)" by simp
    moreover from k have "(8 * i + k) div 8 = i" "(8 * i + k) mod 8 = k" by simp_all
    ultimately show "bit (le_bytes n (of_le_bytes bs :: 'a word) ! i) k \<longleftrightarrow> bit (bs ! i) k"
      using i k assms by (simp add: le_bytes_def bit_simps bit_of_le_bytes)
  qed
qed

lemma of_le_bytes_ucast:
  assumes "8 * length bs \<le> LENGTH('a::len)"
  shows "(of_le_bytes bs :: 64 word) = ucast (of_le_bytes bs :: 'a word)"
proof (rule bit_word_eqI)
  fix k assume "k < LENGTH(64)"
  show "bit (of_le_bytes bs :: 64 word) k \<longleftrightarrow> bit (ucast (of_le_bytes bs :: 'a word) :: 64 word) k"
  proof (cases "k div 8 < length bs")
    case True
    then have "k < 8 * length bs" by (simp add: div_less_iff_less_mult mult.commute)
    with assms have "k < LENGTH('a)" by simp
    then show ?thesis by (simp add: bit_simps bit_of_le_bytes)
  next
    case False
    then show ?thesis by (simp add: bit_simps bit_of_le_bytes)
  qed
qed

subsection \<open>Printing and scanning integers\<close>

lemma digit_value_digit_char: "d < 16 \<Longrightarrow> digit_value (digit_char d) = Some d"
proof -
  assume "d < 16"
  then have "d = 0 \<or> d = 1 \<or> d = 2 \<or> d = 3 \<or> d = 4 \<or> d = 5 \<or> d = 6 \<or> d = 7 \<or> d = 8
      \<or> d = 9 \<or> d = 10 \<or> d = 11 \<or> d = 12 \<or> d = 13 \<or> d = 14 \<or> d = 15" by arith
  then show ?thesis
    by (elim disjE) (simp_all add: digit_char_def digit_value_def)
qed

lemma is_digit_digit_char: "d < b \<Longrightarrow> b \<le> 16 \<Longrightarrow> is_digit b (digit_char d)"
  by (simp add: is_digit_def digit_value_digit_char)

lemma digits_value_snoc:
  "digits_value b (s @ [c]) = b * digits_value b s + the (digit_value c)"
  by (simp add: digits_value_def)

lemma digits_value_digits: "2 \<le> b \<Longrightarrow> b \<le> 16 \<Longrightarrow> digits_value b (digits b n) = n"
proof (induction b n rule: digits.induct)
  case (1 b n)
  show ?case
  proof (cases "n < b")
    case True
    with "1.prems" have "n < 16" by simp
    with True show ?thesis
      by (simp add: digits.simps [of b n] digits_value_def digit_value_digit_char)
  next
    case False
    with "1.prems" have IH: "digits_value b (digits b (n div b)) = n div b"
      by (intro "1.IH") auto
    from "1.prems" have "n mod b < b" by simp
    with "1.prems" have "n mod b < 16" by linarith
    with False "1.prems" IH show ?thesis
      by (simp add: digits.simps [of b n] digits_value_snoc digit_value_digit_char)
  qed
qed

lemma digits_all_digits: "2 \<le> b \<Longrightarrow> b \<le> 16 \<Longrightarrow> \<forall>c\<in>set (digits b n). is_digit b c"
proof (induction b n rule: digits.induct)
  case (1 b n)
  show ?case
  proof (cases "n < b")
    case True
    with "1.prems" show ?thesis
      by (simp add: digits.simps [of b n] is_digit_digit_char)
  next
    case False
    with "1.prems" have IH: "\<forall>c\<in>set (digits b (n div b)). is_digit b c"
      by (intro "1.IH") auto
    from "1.prems" have "n mod b < b" by simp
    with False "1.prems" IH show ?thesis
      by (simp add: digits.simps [of b n] is_digit_digit_char)
  qed
qed

lemma digits_not_Nil: "digits b n \<noteq> []"
  by (simp add: digits.simps [of b n])

lemma length_digits: "2 \<le> b \<Longrightarrow> 0 < k \<Longrightarrow> n < b ^ k \<Longrightarrow> length (digits b n) \<le> k"
proof (induction b n arbitrary: k rule: digits.induct)
  case (1 b n)
  show ?case
  proof (cases "n < b")
    case True
    with "1.prems" show ?thesis by (simp add: digits.simps [of b n])
  next
    case False
    with "1.prems" have "1 < k"
      by (metis One_nat_def Suc_lessI power_one_right)
    then obtain k' where k: "k = Suc k'" "0 < k'" by (cases k) auto
    with "1.prems" have "n div b < b ^ k'"
      by (simp add: less_mult_imp_div_less mult.commute)
    with False "1.prems" k have "length (digits b (n div b)) \<le> k'"
      by (intro "1.IH") auto
    with False "1.prems" k show ?thesis by (simp add: digits.simps [of b n])
  qed
qed

lemma digits_value_zeros: "digits_value b (replicate k CHR ''0'' @ s) = digits_value b s"
proof (induction k)
  case 0
  then show ?case by simp
next
  case (Suc k)
  have "digits_value b (CHR ''0'' # t) = digits_value b t" for t
    by (simp add: digits_value_def digit_value_def)
  with Suc show ?case by simp
qed

lemma printf_0x_digits:
  "printf_0x w x \<noteq> []" "\<forall>c\<in>set (printf_0x w x). is_digit 16 c"
  "digits_value 16 (printf_0x w x) = x"
proof -
  show "printf_0x w x \<noteq> []"
    by (simp add: printf_0x_def zero_pad_def digits_not_Nil)
  have "is_digit 16 CHR ''0''"
    by (simp add: is_digit_def digit_value_def)
  with digits_all_digits [of 16 x] show "\<forall>c\<in>set (printf_0x w x). is_digit 16 c"
    by (auto simp: printf_0x_def zero_pad_def)
  show "digits_value 16 (printf_0x w x) = x"
    by (simp add: printf_0x_def zero_pad_def digits_value_zeros digits_value_digits)
qed

lemma length_printf_0x: "w \<le> 16 \<Longrightarrow> x < 2 ^ 64 \<Longrightarrow> length (printf_0x w x) \<le> 16"
proof -
  assume w: "w \<le> 16" and x: "x < 2 ^ 64"
  have "(2::nat) ^ 64 = 16 ^ 16" by simp
  with x have "x < 16 ^ 16" by simp
  then have "length (digits 16 x) \<le> 16"
    by (intro length_digits) simp_all
  with w show ?thesis
    by (simp add: printf_0x_def zero_pad_def)
qed

lemma sscanf_zX_printf_0x:
  assumes "x < 2 ^ 64"
  shows "sscanf_zX (''0x'' @ printf_0x w x) = Some (of_nat x)"
proof -
  obtain d rest where s: "printf_0x w x = d # rest"
    using printf_0x_digits(1) [of w x] by (cases "printf_0x w x") auto
  with printf_0x_digits(2) [of w x] have d: "is_digit 16 d" by simp
  have sx: "scan_0x (CHR ''0'' # CHR ''x'' # d # rest) = d # rest"
    using d by (simp add: scan_0x_def)
  have tw: "takeWhile (is_digit 16) (d # rest) = d # rest"
    using printf_0x_digits(2) [of w x] s by (simp add: takeWhile_eq_all_conv)
  have v: "digits_value 16 (d # rest) = x"
    using printf_0x_digits(3) [of w x] s by simp
  from assms have "\<not> (2 ^ 64 \<le> x)" by simp
  then show ?thesis
    by (simp add: sscanf_zX_def strtoul_model_def s isspace_def scan_sign_def sx tw v Let_def
          del: takeWhile.simps)
qed

lemma sscanf_zX_hex_text:
  assumes "x < 2 ^ 64" "w \<le> 16"
  shows "sscanf_zX (snprintf_truncate 128 (''0x'' @ printf_0x w x)) = Some (of_nat x)"
proof -
  from length_printf_0x [OF assms(2) assms(1)]
  have "snprintf_truncate 128 (''0x'' @ printf_0x w x) = ''0x'' @ printf_0x w x"
    by (simp add: snprintf_truncate_def)
  with sscanf_zX_printf_0x [OF assms(1)] show ?thesis by simp
qed

lemma mask_promoted_8:
  "ucast ((scast (x :: 8 word) :: 32 word) AND 0xFF) = (ucast x :: 64 word)"
  "ucast ((ucast (x :: 8 word) :: 32 word) AND 0xFF) = (ucast x :: 64 word)"
proof -
  have m: "(0xFF :: 32 word) = mask 8" by (simp add: mask_eq_exp_minus_1)
  show "ucast ((scast x :: 32 word) AND 0xFF) = (ucast x :: 64 word)"
    unfolding m
  proof (rule bit_word_eqI)
    fix n assume "n < LENGTH(64)"
    show "bit (ucast ((scast x :: 32 word) AND mask 8) :: 64 word) n \<longleftrightarrow> bit (ucast x :: 64 word) n"
    proof (cases "n < 8")
      case True
      then have "min 7 n = n" by simp
      with True show ?thesis by (simp add: bit_simps)
    next
      case False
      then have "\<not> bit x n" by (auto dest: bit_imp_le_length)
      with False show ?thesis by (simp add: bit_simps)
    qed
  qed
  show "ucast ((ucast x :: 32 word) AND 0xFF) = (ucast x :: 64 word)"
    unfolding m by (rule bit_word_eqI) (auto simp: bit_simps dest: bit_imp_le_length)
qed

lemma mask_promoted_16:
  "ucast ((scast (x :: 16 word) :: 32 word) AND 0xFFFF) = (ucast x :: 64 word)"
  "ucast ((ucast (x :: 16 word) :: 32 word) AND 0xFFFF) = (ucast x :: 64 word)"
proof -
  have m: "(0xFFFF :: 32 word) = mask 16" by (simp add: mask_eq_exp_minus_1)
  show "ucast ((scast x :: 32 word) AND 0xFFFF) = (ucast x :: 64 word)"
    unfolding m
  proof (rule bit_word_eqI)
    fix n assume "n < LENGTH(64)"
    show "bit (ucast ((scast x :: 32 word) AND mask 16) :: 64 word) n \<longleftrightarrow> bit (ucast x :: 64 word) n"
    proof (cases "n < 16")
      case True
      then have "min 15 n = n" by simp
      with True show ?thesis by (simp add: bit_simps)
    next
      case False
      then have "\<not> bit x n" by (auto dest: bit_imp_le_length)
      with False show ?thesis by (simp add: bit_simps)
    qed
  qed
  show "ucast ((ucast x :: 32 word) AND 0xFFFF) = (ucast x :: 64 word)"
    unfolding m by (rule bit_word_eqI) (auto simp: bit_simps dest: bit_imp_le_length)
qed

lemma sscanf_zX_hex_text_32:
  "w \<le> 16 \<Longrightarrow> sscanf_zX (snprintf_truncate 128 (''0x'' @ printf_0x w (unat (y :: 32 word)))) = Some (ucast y)"
proof -
  assume w: "w \<le> 16"
  have "unat y < 2 ^ 32" using unsigned_less [of y] by simp
  then have "unat y < 2 ^ 64" by simp
  from sscanf_zX_hex_text [OF this w] show ?thesis by simp
qed

lemma sscanf_zX_hex_text_64:
  "w \<le> 16 \<Longrightarrow> sscanf_zX (snprintf_truncate 128 (''0x'' @ printf_0x w (unat (y :: 64 word)))) = Some y"
proof -
  assume w: "w \<le> 16"
  have "unat y < 2 ^ 64" using unsigned_less [of y] by simp
  from sscanf_zX_hex_text [OF this w] show ?thesis by simp
qed

lemma length_EndianessCopy:
  "s \<le> length src \<Longrightarrow> s \<le> length dst \<Longrightarrow> length (EndianessCopy me host dst src s) = length dst"
  by (simp add: EndianessCopy_eq)

lemma object_value_ucast:
  "8 * length bs \<le> LENGTH('a::len) \<Longrightarrow>
   (object_value host bs :: 64 word) = ucast (object_value host bs :: 'a word)"
  by (cases host) (simp_all add: object_value_def of_le_bytes_ucast)

lemma length_object_bytes [simp]: "length (object_bytes host n v) = n"
  by (cases host) (simp_all add: object_bytes_def le_bytes_def)

subsection \<open>The hexadecimal text of the integer types\<close>

lemma length_converter_object [simp]:
  "length (converter_object me host t v) = DataTypeGetSize t"
  by (cases t) (simp_all add: converter_object_def length_EndianessCopy)

lemma DrawPreviewData_hex_S8:
  "DrawPreviewData me libc host v None ms DataType_S8 DataFormat_Hex 128 =
   Some (snprintf_truncate 128 (''0x'' @ printf_0x 2
     (unat ((scast (object_value host (converter_object me host DataType_S8 v) :: 8 word) :: 32 word) AND 0xFF))))"
  by (simp add: DrawPreviewData_def preview_decode_def converter_object_def)

lemma DrawPreviewData_hex_U8:
  "DrawPreviewData me libc host v None ms DataType_U8 DataFormat_Hex 128 =
   Some (snprintf_truncate 128 (''0x'' @ printf_0x 2
     (unat ((ucast (object_value host (converter_object me host DataType_U8 v) :: 8 word) :: 32 word) AND 0xFF))))"
  by (simp add: DrawPreviewData_def preview_decode_def converter_object_def)

lemma DrawPreviewData_hex_S16:
  "DrawPreviewData me libc host v None ms DataType_S16 DataFormat_Hex 128 =
   Some (snprintf_truncate 128 (''0x'' @ printf_0x 4
     (unat ((scast (object_value host (converter_object me host DataType_S16 v) :: 16 word) :: 32 word) AND 0xFFFF))))"
  by (simp add: DrawPreviewData_def preview_decode_def converter_object_def)

lemma DrawPreviewData_hex_U16:
  "DrawPreviewData me libc host v None ms DataType_U16 DataFormat_Hex 128 =
   Some (snprintf_truncate 128 (''0x'' @ printf_0x 4
     (unat ((ucast (object_value host (converter_object me host DataType_U16 v) :: 16 word) :: 32 word) AND 0xFFFF))))"
  by (simp add: DrawPreviewData_def preview_decode_def converter_object_def)

lemma DrawPreviewData_hex_32:
  "DrawPreviewData me libc host v None ms DataType_S32 DataFormat_Hex 128 =
   Some (snprintf_truncate 128 (''0x'' @ printf_0x 8
     (unat (object_value host (converter_object me host DataType_S32 v) :: 32 word))))"
  "DrawPreviewData me libc host v None ms DataType_U32 DataFormat_Hex 128 =
   Some (snprintf_truncate 128 (''0x'' @ printf_0x 8
     (unat (object_value host (converter_object me host DataType_U32 v) :: 32 word))))"
  by (simp_all add: DrawPreviewData_def preview_decode_def converter_object_def)

lemma DrawPreviewData_hex_64:
  "DrawPreviewData me libc host v None ms DataType_S64 DataFormat_Hex 128 =
   Some (snprintf_truncate 128 (''0x'' @ printf_0x 16
     (unat (object_value host (converter_object me host DataType_S64 v) :: 64 word))))"
  "DrawPreviewData me libc host v None ms DataType_U64 DataFormat_Hex 128 =
   Some (snprintf_truncate 128 (''0x'' @ printf_0x 16
     (unat (object_value host (converter_object me host DataType_U64 v) :: 64 word))))"
  by (simp_all add: DrawPreviewData_def preview_decode_def converter_object_def)

lemma sscanf_zX_hex_text_Cons:
  "w \<le> 16 \<Longrightarrow> sscanf_zX (snprintf_truncate 128
      (CHR ''0'' # CHR ''x'' # printf_0x w (unat (y :: 32 word)))) = Some (ucast y)"
  "w \<le> 16 \<Longrightarrow> sscanf_zX (snprintf_truncate 128
      (CHR ''0'' # CHR ''x'' # printf_0x w (unat (z :: 64 word)))) = Some z"
  using sscanf_zX_hex_text_32 [of w y] sscanf_zX_hex_text_64 [of w z] by simp_all

lemma DrawPreviewData_hex_scan:
  assumes "DataType_index t < 8"
  shows "\<exists>out_buf. DrawPreviewData me libc host v None ms t DataFormat_Hex 128 = Some out_buf
           \<and> sscanf_zX out_buf = Some (object_value host (converter_object me host t v))"
proof (cases t)
  case DataType_S8
  have "(object_value host (converter_object me host DataType_S8 v) :: 64 word)
      = ucast (object_value host (converter_object me host DataType_S8 v) :: 8 word)"
    by (rule object_value_ucast) simp
  then show ?thesis
    unfolding DataType_S8 DrawPreviewData_hex_S8
    by (simp add: sscanf_zX_hex_text_Cons mask_promoted_8)
next
  case DataType_U8
  have "(object_value host (converter_object me host DataType_U8 v) :: 64 word)
      = ucast (object_value host (converter_object me host DataType_U8 v) :: 8 word)"
    by (rule object_value_ucast) simp
  then show ?thesis
    unfolding DataType_U8 DrawPreviewData_hex_U8
    by (simp add: sscanf_zX_hex_text_Cons mask_promoted_8)
next
  case DataType_S16
  have "(object_value host (converter_object me host DataType_S16 v) :: 64 word)
      = ucast (object_value host (converter_object me host DataType_S16 v) :: 16 word)"
    by (rule object_value_ucast) simp
  then show ?thesis
    unfolding DataType_S16 DrawPreviewData_hex_S16
    by (simp add: sscanf_zX_hex_text_Cons mask_promoted_16)
next
  case DataType_U16
  have "(object_value host (converter_object me host DataType_U16 v) :: 64 word)
      = ucast (object_value host (converter_object me host DataType_U16 v) :: 16 word)"
    by (rule object_value_ucast) simp
  then show ?thesis
    unfolding DataType_U16 DrawPreviewData_hex_U16
    by (simp add: sscanf_zX_hex_text_Cons mask_promoted_16)
next
  case DataType_S32
  have "(object_value host (converter_object me host DataType_S32 v) :: 64 word)
      = ucast (object_value host (converter_object me host DataType_S32 v) :: 32 word)"
    by (rule object_value_ucast) simp
  then show ?thesis
    unfolding DataType_S32 DrawPreviewData_hex_32
    by (simp add: sscanf_zX_hex_text_Cons)
next
  case DataType_U32
  have "(object_value host (converter_object me host DataType_U32 v) :: 64 word)
      = ucast (object_value host (converter_object me host DataType_U32 v) :: 32 word)"
    by (rule object_value_ucast) simp
  then show ?thesis
    unfolding DataType_U32 DrawPreviewData_hex_32
    by (simp add: sscanf_zX_hex_text_Cons)
next
  case DataType_S64
  then show ?thesis
    unfolding DataType_S64 DrawPreviewData_hex_64
    by (simp add: sscanf_zX_hex_text_Cons)
next
  case DataType_U64
  then show ?thesis
    unfolding DataType_U64 DrawPreviewData_hex_64
    by (simp add: sscanf_zX_hex_text_Cons)
qed (use assms in simp_all)

lemma of_le_bytes_le_bytes_take_bit:
  "(of_le_bytes (le_bytes n (v :: 64 word)) :: 64 word) = take_bit (8 * n) v"
  by (rule bit_word_eqI)
     (auto simp: bit_of_le_bytes le_bytes_def bit_simps less_mult_imp_div_less mult.commute
        div_less_iff_less_mult)

lemma take_bit_size_t_self:
  assumes "unat (v :: 64 word) < 2 ^ k"
  shows "take_bit k v = v"
proof -
  have "unat (take_bit k v) = take_bit k (unat v)" by (simp add: unsigned_take_bit_eq)
  also have "\<dots> = unat v" using assms by (simp add: take_bit_nat_eq_self)
  finally show ?thesis by (simp add: word_unat_eq_iff)
qed

lemma EndianessCopy_verbatim:
  "PreviewEndianess me = 0 \<Longrightarrow> n \<le> 8 \<Longrightarrow>
   EndianessCopy me LittleEndian (replicate n 0) (take n (object_bytes LittleEndian 8 v)) n
     = le_bytes n v"
proof -
  assume a: "PreviewEndianess me = 0" "n \<le> 8"
  then have "take n (le_bytes 8 v) = le_bytes n v"
    by (simp add: le_bytes_def take_map min_def)
  with a show ?thesis
    by (simp add: EndianessCopy_eq object_bytes_def le_bytes_def)
qed

lemma DataTypeGetSize_le_8: "DataTypeGetSize t \<le> 8"
  by (cases t) simp_all

lemma converter_object_little_endian:
  assumes "PreviewEndianess me = 0" "unat v < 2 ^ (8 * DataTypeGetSize t)"
  shows "object_value LittleEndian (converter_object me LittleEndian t v) = v"
proof -
  have "converter_object me LittleEndian t v = le_bytes (DataTypeGetSize t) v"
    unfolding converter_object_def
    using assms(1) DataTypeGetSize_le_8 by (rule EndianessCopy_verbatim)
  then show ?thesis
    using assms(2)
    by (simp add: object_value_def of_le_bytes_le_bytes_take_bit take_bit_size_t_self)
qed

lemma converter_input_hex:
  "ConvertValueFormat me = DataFormat_Hex \<Longrightarrow> sscanf_zX (ValueConverterInputBuf me) = Some v \<Longrightarrow>
   converter_input me libc host = me\<lparr>ValueToConvert := v\<rparr>"
  by (simp add: converter_input_def)

lemma double_of_float_one: "double_of_float 0x3F800000 = 0x3FF0000000000000"
  by (simp add: double_of_float_def ieee_widen_def Let_def)

lemma printf_a_one: "printf_a 0x3FF0000000000000 = ''0x1p+0''"
  by (simp add: printf_a_def Let_def digits.simps digit_char_def drop_bit_eq_div take_bit_eq_mod)

lemma float_one_decoded:
  "(object_value LittleEndian (le_bytes 4 (0x3F800000 :: 64 word)) :: 32 word) = 0x3F800000"
  by (simp add: object_value_def of_le_bytes_le_bytes)

lemma float_one_text:
  "DrawPreviewData (MemoryEditor_new []) libc_unused LittleEndian 0x3F800000 None 0
     DataType_Float DataFormat_Hex 128 = Some ''0x1p+0''"
proof -
  have "PreviewEndianess (MemoryEditor_new []) = 0" by (simp add: MemoryEditor_new_def)
  then show ?thesis
    by (simp add: DrawPreviewData_def preview_decode_def EndianessCopy_verbatim
        float_one_decoded double_of_float_one printf_a_one snprintf_truncate_def)
qed

lemmas sscanf_eval = sscanf_zX_def sscanf_ld_def sscanf_lu_def strtoul_model_def strtol_model_def
  scan_sign_def scan_0x_def isspace_def is_digit_def digit_value_def digits_value_def

lemma swapped_bytes:
  "EndianessCopy big_endian_selected LittleEndian (replicate 2 0)
     (take 2 (object_bytes LittleEndian 8 (0x0102 :: size_t))) 2 = [1, 2]"
  by (simp add: EndianessCopy_eq big_endian_selected_def MemoryEditor_new_def object_bytes_def
      le_bytes_def upt_conv_Cons)

lemma swapped_text:
  "DrawPreviewData big_endian_selected libc_unused LittleEndian 0x0102 None 0
     DataType_U16 DataFormat_Hex 128 = Some ''0x0201''"
proof -
  have "(object_value LittleEndian [1, 2] :: 16 word) = 0x0201"
    by (simp add: object_value_def)
  then show ?thesis
    by (simp add: DrawPreviewData_def preview_decode_def swapped_bytes snprintf_truncate_def
        printf_0x_def zero_pad_def digits.simps digit_char_def)
qed

subsection \<open>Hexadecimal round trip\<close>

text \<open>
  Claim C3, amended. For every one of the eight integer data types and every value,
  the hexadecimal text that \<open>DrawPreviewData\<close> writes for the converter is read back
  by the converter's hexadecimal scan (\<open>%zX\<close>) as the value that was decoded and
  printed. With the byte-order selector on "LE" (\<open>PreviewEndianess = 0\<close>) on a
  little-endian host, and a value representable in the type (below \<open>2 ^ (8 * size)\<close>),
  that is the original value bit for bit, and the converter stores it in
  \<open>ValueToConvert\<close>.
\<close>

theorem hex_round_trip_integers:
  "DataType_index t < 8 \<longrightarrow>
     (\<exists>out_buf. DrawPreviewData me libc host v None mem_size t DataFormat_Hex 128 = Some out_buf
        \<and> sscanf_zX out_buf = Some (object_value host (converter_object me host t v))
        \<and> (host = LittleEndian \<and> PreviewEndianess me = 0 \<and> unat v < 2 ^ (8 * DataTypeGetSize t)
            \<longrightarrow> sscanf_zX out_buf = Some v
              \<and> (ConvertValueFormat me' = DataFormat_Hex \<and> ValueConverterInputBuf me' = out_buf
                  \<longrightarrow> ValueToConvert (converter_input me' libc host) = v)))"
proof
  assume t: "DataType_index t < 8"
  from DrawPreviewData_hex_scan [OF t, of me libc host v mem_size]
  obtain out_buf where out_buf: "DrawPreviewData me libc host v None mem_size t DataFormat_Hex 128 = Some out_buf"
    "sscanf_zX out_buf = Some (object_value host (converter_object me host t v))" by blast
  have "sscanf_zX out_buf = Some v
      \<and> (ConvertValueFormat me' = DataFormat_Hex \<and> ValueConverterInputBuf me' = out_buf
           \<longrightarrow> ValueToConvert (converter_input me' libc host) = v)"
    if h: "host = LittleEndian \<and> PreviewEndianess me = 0 \<and> unat v < 2 ^ (8 * DataTypeGetSize t)"
  proof -
    from h have "object_value host (converter_object me host t v) = v"
      by (simp add: converter_object_little_endian)
    with out_buf(2) have s: "sscanf_zX out_buf = Some v" by simp
    then show ?thesis by (auto simp: converter_input_hex)
  qed
  with out_buf show "\<exists>out_buf. DrawPreviewData me libc host v None mem_size t DataFormat_Hex 128 = Some out_buf
        \<and> sscanf_zX out_buf = Some (object_value host (converter_object me host t v))
        \<and> (host = LittleEndian \<and> PreviewEndianess me = 0 \<and> unat v < 2 ^ (8 * DataTypeGetSize t)
            \<longrightarrow> sscanf_zX out_buf = Some v
              \<and> (ConvertValueFormat me' = DataFormat_Hex \<and> ValueConverterInputBuf me' = out_buf
                  \<longrightarrow> ValueToConvert (converter_input me' libc host) = v))"
    by blast
qed

theorem hex_round_trip_integers_witness:
  "DrawPreviewData (MemoryEditor_new []) libc_unused LittleEndian 0xBEEF None 0
     DataType_U16 DataFormat_Hex 128 = Some ''0xbeef''
   \<and> sscanf_zX ''0xbeef'' = Some 0xBEEF
   \<and> ValueToConvert (converter_input ((MemoryEditor_new [])\<lparr>ValueConverterInputBuf := ''0xbeef''\<rparr>)
        libc_unused LittleEndian) = 0xBEEF"
proof -
  have t: "DataType_index DataType_U16 < 8" by simp
  have h: "LittleEndian = LittleEndian \<and> PreviewEndianess (MemoryEditor_new []) = 0
      \<and> unat (0xBEEF :: size_t) < 2 ^ (8 * DataTypeGetSize DataType_U16)"
    by (simp add: MemoryEditor_new_def)
  have "(object_value LittleEndian (le_bytes 2 (0xBEEF :: size_t)) :: 16 word) = 0xBEEF"
    by (simp add: object_value_def of_le_bytes_le_bytes)
  then have d: "DrawPreviewData (MemoryEditor_new []) libc_unused LittleEndian 0xBEEF None 0
     DataType_U16 DataFormat_Hex 128 = Some ''0xbeef''"
    using h
    by (simp add: DrawPreviewData_def preview_decode_def EndianessCopy_verbatim snprintf_truncate_def
        printf_0x_def zero_pad_def digits.simps digit_char_def)
  have m: "ConvertValueFormat ((MemoryEditor_new [])\<lparr>ValueConverterInputBuf := ''0xbeef''\<rparr>) = DataFormat_Hex
      \<and> ValueConverterInputBuf ((MemoryEditor_new [])\<lparr>ValueConverterInputBuf := ''0xbeef''\<rparr>) = ''0xbeef''"
    by (simp add: MemoryEditor_new_def)
  from hex_round_trip_integers [of DataType_U16 "MemoryEditor_new []" libc_unused LittleEndian
      "0xBEEF" 0 "(MemoryEditor_new [])\<lparr>ValueConverterInputBuf := ''0xbeef''\<rparr>"] t h d m
  have "sscanf_zX ''0xbeef'' = Some 0xBEEF
   \<and> ValueToConvert (converter_input ((MemoryEditor_new [])\<lparr>ValueConverterInputBuf := ''0xbeef''\<rparr>)
        libc_unused LittleEndian) = 0xBEEF"
    by auto
  with d show ?thesis by blast
qed

text \<open>
  The claim as first stated covers all eleven types under every setting. For \<open>Float\<close>
  the hexadecimal text is the \<open>%a\<close> notation: the value 1.0 (bit pattern
  \<open>0x3F800000\<close>) is printed as \<open>0x1p+0\<close>, which the \<open>%zX\<close> scan reads as 1. And with
  the selector on "BE" the bytes are swapped before printing: the \<open>Uint16\<close> value
  \<open>0x0102\<close> is printed as \<open>0x0201\<close> and read back as such.
\<close>

theorem hex_round_trip_counterexample:
  "DrawPreviewData (MemoryEditor_new []) libc_unused LittleEndian 0x3F800000 None 0
     DataType_Float DataFormat_Hex 128 = Some ''0x1p+0''
   \<and> sscanf_zX ''0x1p+0'' = Some 1
   \<and> DrawPreviewData big_endian_selected libc_unused LittleEndian 0x0102 None 0
     DataType_U16 DataFormat_Hex 128 = Some ''0x0201''
   \<and> sscanf_zX ''0x0201'' = Some 0x0201"
proof -
  have a: "sscanf_zX ''0x1p+0'' = Some 1" by (simp add: sscanf_eval)
  have b: "sscanf_zX ''0x0201'' = Some 0x0201" by (simp add: sscanf_eval)
  from float_one_text a swapped_text b show ?thesis by blast
qed

subsection \<open>Decoding under the selected byte order\<close>

lemma decode_1234:
  "PreviewEndianess me = 0 \<Longrightarrow> (preview_decode me host 4 [1, 2, 3, 4] 4 :: 32 word) = 0x04030201"
  "PreviewEndianess me = 1 \<Longrightarrow> (preview_decode me host 4 [1, 2, 3, 4] 4 :: 32 word) = 0x01020304"
  by (cases host; simp add: preview_decode_def EndianessCopy_eq object_value_def)+

lemma DrawPreviewData_U32_hex:
  assumes "ReadFn me = None"
  shows "DrawPreviewData me libc host 0 (Some [1, 2, 3, 4]) 4 DataType_U32 DataFormat_Hex 128 =
     Some (snprintf_truncate 128
        (''0x'' @ printf_0x 8 (unat (preview_decode me host 4 [1, 2, 3, 4] 4 :: 32 word))))"
  using assms by (simp add: DrawPreviewData_def)

lemma hex_texts_1234:
  "snprintf_truncate 128 (''0x'' @ printf_0x 8 (unat (0x04030201 :: 32 word))) = ''0x04030201''"
  "snprintf_truncate 128 (''0x'' @ printf_0x 8 (unat (0x01020304 :: 32 word))) = ''0x01020304''"
  by (simp_all add: snprintf_truncate_def printf_0x_def zero_pad_def digits.simps digit_char_def)

text \<open>
  Claim C4. Decoding the four bytes \<open>[0x01, 0x02, 0x03, 0x04]\<close> as \<open>Uint32\<close> yields
  \<open>0x04030201\<close> when the selector stands on "LE" (\<open>PreviewEndianess = 0\<close>) and
  \<open>0x01020304\<close> when it stands on "BE" (\<open>PreviewEndianess = 1\<close>), whatever the byte
  order of the host; the hexadecimal text of the preview read from a buffer holding these
  bytes shows the same value.
\<close>

theorem decode_U32_byte_order:
  "(PreviewEndianess me = 0 \<longrightarrow>
      (preview_decode me host 4 [1, 2, 3, 4] 4 :: 32 word) = 0x04030201
    \<and> (ReadFn me = None \<longrightarrow>
         DrawPreviewData me libc host 0 (Some [1, 2, 3, 4]) 4 DataType_U32 DataFormat_Hex 128
           = Some ''0x04030201''))
   \<and> (PreviewEndianess me = 1 \<longrightarrow>
      (preview_decode me host 4 [1, 2, 3, 4] 4 :: 32 word) = 0x01020304
    \<and> (ReadFn me = None \<longrightarrow>
         DrawPreviewData me libc host 0 (Some [1, 2, 3, 4]) 4 DataType_U32 DataFormat_Hex 128
           = Some ''0x01020304''))"
proof (intro conjI impI)
  assume "PreviewEndianess me = 0"
  then show d: "(preview_decode me host 4 [1, 2, 3, 4] 4 :: 32 word) = 0x04030201"
    by (rule decode_1234)
  assume "ReadFn me = None"
  then show "DrawPreviewData me libc host 0 (Some [1, 2, 3, 4]) 4 DataType_U32 DataFormat_Hex 128
           = Some ''0x04030201''"
    by (simp only: DrawPreviewData_U32_hex d hex_texts_1234)
next
  assume "PreviewEndianess me = 1"
  then show d: "(preview_decode me host 4 [1, 2, 3, 4] 4 :: 32 word) = 0x01020304"
    by (rule decode_1234)
  assume "ReadFn me = None"
  then show "DrawPreviewData me libc host 0 (Some [1, 2, 3, 4]) 4 DataType_U32 DataFormat_Hex 128
           = Some ''0x01020304''"
    by (simp only: DrawPreviewData_U32_hex d hex_texts_1234)
qed

theorem decode_U32_byte_order_witness:
  "DrawPreviewData (MemoryEditor_new []) libc_unused BigEndian 0 (Some [1, 2, 3, 4]) 4 DataType_U32
     DataFormat_Hex 128 = Some ''0x04030201''
   \<and> DrawPreviewData (MemoryEditor_new []) libc_unused LittleEndian 0 (Some [1, 2, 3, 4]) 4 DataType_U32
     DataFormat_Hex 128 = Some ''0x04030201''
   \<and> DrawPreviewData big_endian_selected libc_unused LittleEndian 0 (Some [1, 2, 3, 4]) 4 DataType_U32
     DataFormat_Hex 128 = Some ''0x01020304''
   \<and> DrawPreviewData big_endian_selected libc_unused BigEndian 0 (Some [1, 2, 3, 4]) 4 DataType_U32
     DataFormat_Hex 128 = Some ''0x01020304''"
proof -
  have a: "PreviewEndianess (MemoryEditor_new []) = 0" "ReadFn (MemoryEditor_new []) = None"
    by (simp_all add: MemoryEditor_new_def)
  have b: "PreviewEndianess big_endian_selected = 1" "ReadFn big_endian_selected = None"
    by (simp_all add: big_endian_selected_def MemoryEditor_new_def)
  from decode_U32_byte_order [of "MemoryEditor_new []" BigEndian libc_unused]
    decode_U32_byte_order [of "MemoryEditor_new []" LittleEndian libc_unused]
    decode_U32_byte_order [of big_endian_selected LittleEndian libc_unused]
    decode_U32_byte_order [of big_endian_selected BigEndian libc_unused] a b
  show ?thesis by simp
qed

subsection \<open>The binary text\<close>

















section \<open>Properties of the converter's input\<close>

lemma object_bytes_object_value:
  "length bs = 8 \<Longrightarrow> object_bytes host 8 (object_value host bs :: 64 word) = bs"
  by (cases host) (simp_all add: object_bytes_def object_value_def le_bytes_of_le_bytes)

lemma converter_input_Float:
  assumes "ConvertValueFormat me \<noteq> DataFormat_Hex" "ConvertValueType me = DataType_Float"
    "sscanf_f libc (ValueConverterInputBuf me) = Some f"
  shows "object_bytes host 8 (ValueToConvert (converter_input me libc host)) =
           object_bytes host 4 f @ drop 4 (object_bytes host 8 (ValueToConvert me))"
proof -
  from assms have "ValueToConvert (converter_input me libc host) =
      object_value host (memcpy_bytes (object_bytes host 8 (ValueToConvert me)) (object_bytes host 4 f) 4)"
    by (cases "ConvertValueFormat me") (simp_all add: converter_input_def)
  then show ?thesis
    by (simp add: object_bytes_object_value memcpy_bytes_def)
qed

text \<open>
  Claim C9. For every conversion type and radix, when the scan of the converter's input
  text fails (the text is malformed for the conversion in force: \<open>%zX\<close> in hexadecimal
  radix; otherwise \<open>%f\<close> for \<open>HalfFloat\<close> and \<open>Float\<close>, \<open>%lf\<close> for \<open>Double\<close>,
  \<open>%ld\<close> for the signed and \<open>%lu\<close> for the unsigned integer types), the editor is left
  exactly as it was: \<open>ValueToConvert\<close> keeps its value, nothing is raised and nothing is
  partly written.
\<close>

theorem malformed_input_keeps_value:
  "(ConvertValueFormat me = DataFormat_Hex \<and> sscanf_zX (ValueConverterInputBuf me) = None
      \<longrightarrow> converter_input me libc host = me)
   \<and> (ConvertValueFormat me \<noteq> DataFormat_Hex \<and> ConvertValueType me = DataType_HalfFloat
       \<and> sscanf_f libc (ValueConverterInputBuf me) = None
      \<longrightarrow> converter_input me libc host = me)
   \<and> (ConvertValueFormat me \<noteq> DataFormat_Hex \<and> ConvertValueType me = DataType_Float
       \<and> sscanf_f libc (ValueConverterInputBuf me) = None
      \<longrightarrow> converter_input me libc host = me)
   \<and> (ConvertValueFormat me \<noteq> DataFormat_Hex \<and> ConvertValueType me = DataType_Double
       \<and> sscanf_lf libc (ValueConverterInputBuf me) = None
      \<longrightarrow> converter_input me libc host = me)
   \<and> (ConvertValueFormat me \<noteq> DataFormat_Hex \<and> DataType_index (ConvertValueType me) < 8
       \<and> DataType_index (ConvertValueType me) mod 2 = 0
       \<and> sscanf_ld (ValueConverterInputBuf me) = None
      \<longrightarrow> converter_input me libc host = me)
   \<and> (ConvertValueFormat me \<noteq> DataFormat_Hex \<and> DataType_index (ConvertValueType me) < 8
       \<and> DataType_index (ConvertValueType me) mod 2 = 1
       \<and> sscanf_lu (ValueConverterInputBuf me) = None
      \<longrightarrow> converter_input me libc host = me)"
  by (cases "ConvertValueFormat me"; cases "ConvertValueType me")
     (simp_all add: converter_input_def)

theorem malformed_input_keeps_value_witness:
  "sscanf_zX ''xyz'' = None
   \<and> converter_input ((MemoryEditor_new [])\<lparr>ValueConverterInputBuf := ''xyz'', ValueToConvert := 7\<rparr>)
        libc_unused LittleEndian
      = (MemoryEditor_new [])\<lparr>ValueConverterInputBuf := ''xyz'', ValueToConvert := 7\<rparr>
   \<and> sscanf_ld ''--5'' = None
   \<and> converter_input (decimal_converter DataType_S32 ''--5'') libc_unused LittleEndian
      = decimal_converter DataType_S32 ''--5''
   \<and> sscanf_lu [] = None
   \<and> converter_input (decimal_converter DataType_U8 []) libc_unused LittleEndian
      = decimal_converter DataType_U8 []
   \<and> converter_input (decimal_converter DataType_Float ''abc'') libc_reading_1_5 BigEndian
      = decimal_converter DataType_Float ''abc''
   \<and> converter_input (decimal_converter DataType_Double ''abc'') libc_reading_1_5 BigEndian
      = decimal_converter DataType_Double ''abc''
   \<and> converter_input (decimal_converter DataType_HalfFloat ''abc'') libc_reading_1_5 BigEndian
      = decimal_converter DataType_HalfFloat ''abc''"
proof -
  let ?hex = "(MemoryEditor_new [])\<lparr>ValueConverterInputBuf := ''xyz'', ValueToConvert := 7\<rparr>"
  have s: "sscanf_zX ''xyz'' = None" "sscanf_ld ''--5'' = None" "sscanf_lu [] = None"
    by (simp_all add: sscanf_eval)
  have f: "sscanf_f libc_reading_1_5 ''abc'' = None" "sscanf_lf libc_reading_1_5 ''abc'' = None"
    by (simp_all add: libc_reading_1_5_def)
  have h: "ConvertValueFormat ?hex = DataFormat_Hex" "ValueConverterInputBuf ?hex = ''xyz''"
    by (simp_all add: MemoryEditor_new_def)
  have d: "ConvertValueFormat (decimal_converter t inp) \<noteq> DataFormat_Hex"
    "ConvertValueType (decimal_converter t inp) = t"
    "ValueConverterInputBuf (decimal_converter t inp) = inp" for t inp
    by (simp_all add: decimal_converter_def)
  from malformed_input_keeps_value [of ?hex libc_unused LittleEndian] s h
  have 1: "converter_input ?hex libc_unused LittleEndian = ?hex" by simp
  from malformed_input_keeps_value [of "decimal_converter DataType_S32 ''--5''" libc_unused LittleEndian] s d
  have 2: "converter_input (decimal_converter DataType_S32 ''--5'') libc_unused LittleEndian
      = decimal_converter DataType_S32 ''--5''" by simp
  from malformed_input_keeps_value [of "decimal_converter DataType_U8 []" libc_unused LittleEndian] s d
  have 3: "converter_input (decimal_converter DataType_U8 []) libc_unused LittleEndian
      = decimal_converter DataType_U8 []" by simp
  from malformed_input_keeps_value [of "decimal_converter DataType_Float ''abc''" libc_reading_1_5 BigEndian] f d
  have 4: "converter_input (decimal_converter DataType_Float ''abc'') libc_reading_1_5 BigEndian
      = decimal_converter DataType_Float ''abc''" by simp
  from malformed_input_keeps_value [of "decimal_converter DataType_Double ''abc''" libc_reading_1_5 BigEndian] f d
  have 5: "converter_input (decimal_converter DataType_Double ''abc'') libc_reading_1_5 BigEndian
      = decimal_converter DataType_Double ''abc''" by simp
  from malformed_input_keeps_value [of "decimal_converter DataType_HalfFloat ''abc''" libc_reading_1_5 BigEndian] f d
  have 6: "converter_input (decimal_converter DataType_HalfFloat ''abc'') libc_reading_1_5 BigEndian
      = decimal_converter DataType_HalfFloat ''abc''" by simp
  from s 1 2 3 4 5 6 show ?thesis by simp
qed

text \<open>
  Claim C10. When the converter's type is \<open>HalfFloat\<close> and the radix is decimal or
  binary, submitting input text never modifies \<open>ValueToConvert\<close>, whatever the text and
  whatever the scan yields: the scanned value goes to a local that is dropped. For every
  other type, text that scans updates the value: for \<open>Float\<close> the first four bytes of
  the object \<open>ValueToConvert\<close> become the bytes of the scanned \<open>float\<close> (the other four
  stay), for \<open>Double\<close> and the integer types the whole value becomes the scanned one.
\<close>

theorem half_float_input_discarded:
  "(ConvertValueType me = DataType_HalfFloat \<and> ConvertValueFormat me \<noteq> DataFormat_Hex
      \<longrightarrow> converter_input me libc host = me)
   \<and> (ConvertValueFormat me \<noteq> DataFormat_Hex \<and> ConvertValueType me = DataType_Float
       \<and> sscanf_f libc (ValueConverterInputBuf me) = Some f
      \<longrightarrow> object_bytes host 8 (ValueToConvert (converter_input me libc host)) =
            object_bytes host 4 f @ drop 4 (object_bytes host 8 (ValueToConvert me)))
   \<and> (ConvertValueFormat me \<noteq> DataFormat_Hex \<and> ConvertValueType me = DataType_Double
       \<and> sscanf_lf libc (ValueConverterInputBuf me) = Some d
      \<longrightarrow> converter_input me libc host = me\<lparr>ValueToConvert := d\<rparr>)
   \<and> (ConvertValueFormat me \<noteq> DataFormat_Hex \<and> DataType_index (ConvertValueType me) < 8
       \<and> DataType_index (ConvertValueType me) mod 2 = 0
       \<and> sscanf_ld (ValueConverterInputBuf me) = Some v
      \<longrightarrow> converter_input me libc host = me\<lparr>ValueToConvert := v\<rparr>)
   \<and> (ConvertValueFormat me \<noteq> DataFormat_Hex \<and> DataType_index (ConvertValueType me) < 8
       \<and> DataType_index (ConvertValueType me) mod 2 = 1
       \<and> sscanf_lu (ValueConverterInputBuf me) = Some v
      \<longrightarrow> converter_input me libc host = me\<lparr>ValueToConvert := v\<rparr>)"
proof (intro conjI impI)
  assume "ConvertValueFormat me \<noteq> DataFormat_Hex \<and> ConvertValueType me = DataType_Float
       \<and> sscanf_f libc (ValueConverterInputBuf me) = Some f"
  then show "object_bytes host 8 (ValueToConvert (converter_input me libc host)) =
            object_bytes host 4 f @ drop 4 (object_bytes host 8 (ValueToConvert me))"
    by (intro converter_input_Float) simp_all
qed (cases "ConvertValueFormat me"; cases "ConvertValueType me"; simp add: converter_input_def)+

theorem half_float_input_discarded_witness:
  "sscanf_f libc_reading_1_5 (ValueConverterInputBuf (decimal_converter DataType_HalfFloat ''1.5''))
     = Some 0x3FC00000
   \<and> converter_input (decimal_converter DataType_HalfFloat ''1.5'') libc_reading_1_5 LittleEndian
      = decimal_converter DataType_HalfFloat ''1.5''
   \<and> ValueToConvert (converter_input (decimal_converter DataType_Double ''1.5'') libc_reading_1_5
        LittleEndian) = 0x3FF8000000000000
   \<and> ValueToConvert (decimal_converter DataType_Double ''1.5'') = 0x1122334455667788
   \<and> ValueToConvert (converter_input (decimal_converter DataType_S16 ''-2'') libc_reading_1_5
        LittleEndian) = - 2
   \<and> ValueToConvert (converter_input (decimal_converter DataType_U16 ''12ab'') libc_reading_1_5
        LittleEndian) = 12
   \<and> object_bytes LittleEndian 8 (ValueToConvert
        (converter_input (decimal_converter DataType_Float ''1.5'') libc_reading_1_5 LittleEndian))
      = [0x00, 0x00, 0xC0, 0x3F, 0x44, 0x33, 0x22, 0x11]"
proof -
  have d: "ConvertValueFormat (decimal_converter t inp) \<noteq> DataFormat_Hex"
    "ConvertValueType (decimal_converter t inp) = t"
    "ValueConverterInputBuf (decimal_converter t inp) = inp"
    "ValueToConvert (decimal_converter t inp) = 0x1122334455667788" for t inp
    by (simp_all add: decimal_converter_def)
  have f: "sscanf_f libc_reading_1_5 ''1.5'' = Some 0x3FC00000"
    "sscanf_lf libc_reading_1_5 ''1.5'' = Some 0x3FF8000000000000"
    by (simp_all add: libc_reading_1_5_def)
  have s: "sscanf_ld ''-2'' = Some (- 2)" "sscanf_lu ''12ab'' = Some 12"
    by (simp_all add: sscanf_eval)
  from half_float_input_discarded [of "decimal_converter DataType_HalfFloat ''1.5''"
      libc_reading_1_5 LittleEndian] d
  have 1: "converter_input (decimal_converter DataType_HalfFloat ''1.5'') libc_reading_1_5 LittleEndian
      = decimal_converter DataType_HalfFloat ''1.5''" by simp
  from half_float_input_discarded [of "decimal_converter DataType_Double ''1.5''"
      libc_reading_1_5 LittleEndian _ "0x3FF8000000000000"] d f
  have 2: "ValueToConvert (converter_input (decimal_converter DataType_Double ''1.5'') libc_reading_1_5
        LittleEndian) = 0x3FF8000000000000" by simp
  from half_float_input_discarded [of "decimal_converter DataType_S16 ''-2''"
      libc_reading_1_5 LittleEndian _ _ "- 2"] d s
  have 3: "ValueToConvert (converter_input (decimal_converter DataType_S16 ''-2'') libc_reading_1_5
        LittleEndian) = - 2" by simp
  from half_float_input_discarded [of "decimal_converter DataType_U16 ''12ab''"
      libc_reading_1_5 LittleEndian _ _ 12] d s
  have 4: "ValueToConvert (converter_input (decimal_converter DataType_U16 ''12ab'') libc_reading_1_5
        LittleEndian) = 12" by simp
  have b: "object_bytes LittleEndian 4 (0x3FC00000 :: 32 word) = [0x00, 0x00, 0xC0, 0x3F]"
    "drop 4 (object_bytes LittleEndian 8 (0x1122334455667788 :: size_t)) = [0x44, 0x33, 0x22, 0x11]"
    by (simp_all add: object_bytes_def le_bytes_def upt_conv_Cons)
  from half_float_input_discarded [of "decimal_converter DataType_Float ''1.5''"
      libc_reading_1_5 LittleEndian "0x3FC00000"] d f
  have "object_bytes LittleEndian 8 (ValueToConvert
        (converter_input (decimal_converter DataType_Float ''1.5'') libc_reading_1_5 LittleEndian))
      = object_bytes LittleEndian 4 (0x3FC00000 :: 32 word)
        @ drop 4 (object_bytes LittleEndian 8 (0x1122334455667788 :: size_t))" by simp
  then have 5: "object_bytes LittleEndian 8 (ValueToConvert
        (converter_input (decimal_converter DataType_Float ''1.5'') libc_reading_1_5 LittleEndian))
      = [0x00, 0x00, 0xC0, 0x3F, 0x44, 0x33, 0x22, 0x11]"
    by (simp only: b) simp
  from d f 1 2 3 4 5 show ?thesis by simp
qed

end
